theory Spec2Isabelle
  imports Main
begin

section \<open>Text: characters, whitespace and the citation-marker patterns\<close>

text \<open>
  Python strings are modelled as \<open>string\<close>, one \<open>char\<close> per code point below 256.
  For text patterns the regular-expression classes are the Unicode ones: below 256,
  \<^verbatim>\<open>\s\<close> (and \<^verbatim>\<open>str.strip()\<close>) accept the code points 9 to 13, 28 to 32, 133 and
  160, and \<^verbatim>\<open>\d\<close> accepts the ten ASCII digits.
\<close>

definition is_space :: "char \<Rightarrow> bool" where
  "is_space c =
     (let n = (of_char c :: nat)
      in (9 \<le> n \<and> n \<le> 13) \<or> (28 \<le> n \<and> n \<le> 32) \<or> n = 133 \<or> n = 160)"

definition is_digit :: "char \<Rightarrow> bool" where
  "is_digit c = (let n = (of_char c :: nat) in 48 \<le> n \<and> n \<le> 57)"

text \<open>\<open>strip_prefix p s\<close>: the text after the literal \<open>p\<close> when \<open>s\<close> starts with it.\<close>

fun strip_prefix :: "string \<Rightarrow> string \<Rightarrow> string option" where
  "strip_prefix [] s = Some s"
| "strip_prefix (p # ps) [] = None"
| "strip_prefix (p # ps) (c # cs) = (if p = c then strip_prefix ps cs else None)"

text \<open>An alternation of literals, tried from left to right.\<close>

fun first_of :: "string list \<Rightarrow> string \<Rightarrow> string option" where
  "first_of [] s = None"
| "first_of (w # ws) s =
     (case strip_prefix w s of Some r \<Rightarrow> Some r | None \<Rightarrow> first_of ws s)"

text \<open>\<^verbatim>\<open>\d+\<close>: at least one digit, then every digit that follows.\<close>

definition digits1 :: "string \<Rightarrow> string option" where
  "digits1 s = (if takeWhile is_digit s = [] then None else Some (dropWhile is_digit s))"

text \<open>An optional single character, such as \<^verbatim>\<open>,?\<close>.\<close>

definition opt_char :: "char \<Rightarrow> string \<Rightarrow> string" where
  "opt_char k s = (case s of [] \<Rightarrow> s | c # cs \<Rightarrow> if c = k then cs else s)"

text \<open>
  One round of the repeated group of
  \<^verbatim>\<open>\[(?:General search \d+,?\s*|Meta search \d+,?\s*)+\]\<close>.
  The group is followed by another round or by the closing bracket, that is by
  \<open>G\<close>, \<open>M\<close> or \<open>]\<close>; so a digit, a comma or a blank that the greedy
  quantifiers took can never be given back with success, and the backtracking matcher
  finds a match exactly where this left-to-right reading does, with the same end.
\<close>

definition search_item :: "string \<Rightarrow> string option" where
  "search_item s =
     (case first_of [''General search '', ''Meta search ''] s of
        None \<Rightarrow> None
      | Some r \<Rightarrow>
          (case digits1 r of
             None \<Rightarrow> None
           | Some r' \<Rightarrow> Some (dropWhile is_space (opt_char (CHR '','') r'))))"

lemma strip_prefix_length:
  "strip_prefix p s = Some r \<Longrightarrow> length s = length p + length r"
  by (induction p s rule: strip_prefix.induct) (simp_all split: if_splits)

lemma first_of_le: "first_of ws s = Some r \<Longrightarrow> length r \<le> length s"
proof (induction ws)
  case Nil
  then show ?case by simp
next
  case (Cons w ws)
  show ?case
  proof (cases "strip_prefix w s")
    case None
    with Cons show ?thesis by simp
  next
    case (Some r')
    with Cons.prems have "r' = r" by simp
    with Some show ?thesis using strip_prefix_length[of w s r] by simp
  qed
qed

lemma digits1_shorter: "digits1 s = Some r \<Longrightarrow> length r < length s"
proof (cases s)
  case Nil
  assume "digits1 s = Some r"
  with Nil show ?thesis by (simp add: digits1_def)
next
  case (Cons c cs)
  assume "digits1 s = Some r"
  with Cons have c: "is_digit c" and r: "r = dropWhile is_digit cs"
    by (simp_all add: digits1_def split: if_splits)
  have "length (dropWhile is_digit cs) \<le> length cs" by (rule length_dropWhile_le)
  with Cons r show ?thesis by simp
qed

lemma opt_char_le: "length (opt_char k s) \<le> length s"
  by (simp add: opt_char_def split: list.splits)

lemma search_item_shorter:
  assumes "search_item s = Some r"
  shows "length r < length s"
proof -
  from assms obtain r1 r2
    where 1: "first_of [''General search '', ''Meta search ''] s = Some r1"
      and 2: "digits1 r1 = Some r2"
      and 3: "r = dropWhile is_space (opt_char (CHR '','') r2)"
    unfolding search_item_def by (auto split: option.splits)
  have "length r \<le> length r2"
    unfolding 3 by (rule order_trans[OF length_dropWhile_le opt_char_le])
  also have "length r2 < length r1" by (rule digits1_shorter[OF 2])
  also have "length r1 \<le> length s" by (rule first_of_le[OF 1])
  finally show ?thesis .
qed

text \<open>The rounds after the first one, then the closing bracket.\<close>

function search_items :: "string \<Rightarrow> string option" where
  "search_items s =
     (case search_item s of
        Some r \<Rightarrow> search_items r
      | None \<Rightarrow> strip_prefix '']'' s)"
  by pat_completeness auto
termination
  by (relation "measure length") (simp_all add: search_item_shorter)

declare search_items.simps [simp del]

text \<open>
  The two patterns of \<^verbatim>\<open>_clean_metadata_from_text\<close>. \<open>match_at p s\<close> is the text
  after the match when pattern \<open>p\<close> matches at the start of \<open>s\<close>:
  \<^item> \<open>General_marker\<close>: \<^verbatim>\<open>\[(?:General search \d+,?\s*|Meta search \d+,?\s*)+\]\<close>
  \<^item> \<open>Simple_marker\<close>: \<^verbatim>\<open>\[(?:Search|Result|Source|Reference)\s*\d+\]\<close>
\<close>

datatype marker = General_marker | Simple_marker

fun match_at :: "marker \<Rightarrow> string \<Rightarrow> string option" where
  "match_at General_marker s =
     (case strip_prefix ''['' s of
        None \<Rightarrow> None
      | Some r \<Rightarrow> (case search_item r of None \<Rightarrow> None | Some r' \<Rightarrow> search_items r'))"
| "match_at Simple_marker s =
     (case strip_prefix ''['' s of
        None \<Rightarrow> None
      | Some r \<Rightarrow>
          (case first_of [''Search'', ''Result'', ''Source'', ''Reference''] r of
             None \<Rightarrow> None
           | Some r' \<Rightarrow>
               (case digits1 (dropWhile is_space r') of
                  None \<Rightarrow> None
                | Some r'' \<Rightarrow> strip_prefix '']'' r'')))"

lemma search_items_le: "search_items s = Some r \<Longrightarrow> length r \<le> length s"
proof (induction s rule: search_items.induct)
  case (1 s)
  show ?case
  proof (cases "search_item s")
    case None
    with "1.prems" have "strip_prefix '']'' s = Some r" by (simp add: search_items.simps)
    then show ?thesis using strip_prefix_length[of "'']''" s r] by simp
  next
    case (Some r')
    with "1.prems" have "search_items r' = Some r" by (simp add: search_items.simps)
    with "1.IH"[OF Some] have "length r \<le> length r'" by simp
    with search_item_shorter[OF Some] show ?thesis by simp
  qed
qed

lemma match_at_shorter:
  assumes "match_at p s = Some r"
  shows "length r < length s"
proof (cases p)
  case General_marker
  with assms obtain r1 r2
    where 1: "strip_prefix ''['' s = Some r1" and 2: "search_item r1 = Some r2"
      and 3: "search_items r2 = Some r"
    by (auto split: option.splits)
  from 1 have "length s = Suc (length r1)" using strip_prefix_length[of "''[''" s r1] by simp
  moreover from 2 have "length r2 < length r1" by (rule search_item_shorter)
  moreover from 3 have "length r \<le> length r2" by (rule search_items_le)
  ultimately show ?thesis by simp
next
  case Simple_marker
  with assms obtain r1 r2 r3
    where 1: "strip_prefix ''['' s = Some r1"
      and 2: "first_of [''Search'', ''Result'', ''Source'', ''Reference''] r1 = Some r2"
      and 3: "digits1 (dropWhile is_space r2) = Some r3"
      and 4: "strip_prefix '']'' r3 = Some r"
    by (auto split: option.splits)
  from 1 have "length s = Suc (length r1)" using strip_prefix_length[of "''[''" s r1] by simp
  moreover from 2 have "length r2 \<le> length r1" by (rule first_of_le)
  moreover have "length (dropWhile is_space r2) \<le> length r2" by (rule length_dropWhile_le)
  moreover from 3 have "length r3 < length (dropWhile is_space r2)" by (rule digits1_shorter)
  moreover from 4 have "length r3 = Suc (length r)"
    using strip_prefix_length[of "'']''" r3 r] by simp
  ultimately show ?thesis by simp
qed

text \<open>
  \<^verbatim>\<open>re.sub(pattern, '', text)\<close>: scanning from the left, every match is deleted and
  the scan goes on after it; a character where no match starts is kept.
\<close>

function re_sub_delete :: "marker \<Rightarrow> string \<Rightarrow> string" where
  "re_sub_delete p [] = []"
| "re_sub_delete p (c # cs) =
     (case match_at p (c # cs) of
        Some r \<Rightarrow> re_sub_delete p r
      | None \<Rightarrow> c # re_sub_delete p cs)"
  by pat_completeness auto
termination
proof (relation "measure (\<lambda>(p, s). length s)")
  show "wf (measure (\<lambda>(p, s). length s))" by simp
next
  fix p :: marker and c :: char and cs r :: string
  assume "match_at p (c # cs) = Some r"
  then have "length r < length (c # cs)" by (rule match_at_shorter)
  then show "((p, r), (p, c # cs)) \<in> measure (\<lambda>(p, s). length s)" by simp
next
  fix p :: marker and c :: char and cs :: string
  show "((p, cs), (p, c # cs)) \<in> measure (\<lambda>(p, s). length s)" by simp
qed

text \<open>\<^verbatim>\<open>re.sub(r'\s+', ' ', text)\<close>: every run of blanks becomes one space.\<close>

function collapse_ws :: "string \<Rightarrow> string" where
  "collapse_ws [] = []"
| "collapse_ws (c # cs) =
     (if is_space c then CHR '' '' # collapse_ws (dropWhile is_space cs)
      else c # collapse_ws cs)"
  by pat_completeness auto
termination
  by (relation "measure length") (simp_all add: le_imp_less_Suc length_dropWhile_le)

text \<open>\<^verbatim>\<open>str.strip()\<close>: the blanks at both ends are dropped.\<close>

definition strip :: "string \<Rightarrow> string" where
  "strip s = rev (dropWhile is_space (rev (dropWhile is_space s)))"

text \<open>
  \<^verbatim>\<open>_clean_metadata_from_text\<close> on a string: the empty text is returned as it is;
  otherwise the two marker patterns are deleted in turn, runs of blanks are collapsed
  and the ends are stripped.
\<close>

definition clean_metadata_from_text :: "string \<Rightarrow> string" where
  "clean_metadata_from_text text =
     (if text = [] then text
      else strip (collapse_ws (re_sub_delete Simple_marker (re_sub_delete General_marker text))))"

text \<open>
  \<open>has_match p s\<close>: pattern \<open>p\<close> matches somewhere in \<open>s\<close>, that is, \<open>s\<close> still
  contains a marker of that kind.
\<close>

fun has_match :: "marker \<Rightarrow> string \<Rightarrow> bool" where
  "has_match p [] = False"
| "has_match p (c # cs) = (match_at p (c # cs) \<noteq> None \<or> has_match p cs)"

text \<open>
  \<open>spaced s\<close>: every blank of \<open>s\<close> is a plain space that is followed by no blank.
\<close>

fun spaced :: "string \<Rightarrow> bool" where
  "spaced [] = True"
| "spaced (c # cs) =
     ((is_space c \<longrightarrow> c = CHR '' '' \<and> (case cs of [] \<Rightarrow> True | d # _ \<Rightarrow> \<not> is_space d))
      \<and> spaced cs)"

section \<open>JSON values, exceptions and the decoder\<close>

text \<open>
  The values that \<^verbatim>\<open>json.loads\<close> builds. A float is kept as the decimal it was
  written as, \<open>JFloat m e\<close> standing for \<open>m * 10 ^ e\<close>; \<open>JSpecial\<close> holds the
  constants \<open>NaN\<close>, \<open>Infinity\<close> and \<open>-Infinity\<close>. A Python \<open>dict\<close> is an
  association list in insertion order, with one entry for each key.
\<close>

datatype json =
    JNull
  | JBool bool
  | JInt int
  | JFloat int int
  | JSpecial string
  | JString string
  | JArray "json list"
  | JObject "(string \<times> json) list"

text \<open>
  The exceptions that the modelled code can meet. \<open>Out_of_model\<close> is not a Python
  exception: it marks a text that denotes a code point of 256 or more, which a
  \<open>char\<close> cannot hold; nothing is claimed for such a text.
\<close>

datatype exn =
    JSONDecodeError
  | KeyError
  | TypeError
  | AttributeError
  | ValueError
  | TimeoutError
  | RecursionError
  | Out_of_model

text \<open>\<^verbatim>\<open>d.get(k, default)\<close> and \<^verbatim>\<open>d[k] = v\<close>.\<close>

definition dict_get :: "(string \<times> json) list \<Rightarrow> string \<Rightarrow> json \<Rightarrow> json" where
  "dict_get d k dflt = (case map_of d k of None \<Rightarrow> dflt | Some v \<Rightarrow> v)"

fun dict_set :: "('k \<times> 'v) list \<Rightarrow> 'k \<Rightarrow> 'v \<Rightarrow> ('k \<times> 'v) list" where
  "dict_set [] k v = [(k, v)]"
| "dict_set ((k', v') # d) k v =
     (if k' = k then (k, v) # d else (k', v') # dict_set d k v)"

text \<open>
  Truth value testing. A written float is zero as a double when its mantissa is zero
  or when it is at most \<open>2 ^ -1075\<close>, half of the least positive double.
\<close>

definition float_is_zero :: "int \<Rightarrow> int \<Rightarrow> bool" where
  "float_is_zero m e = (m = 0 \<or> (e < 0 \<and> \<bar>m\<bar> * 2 ^ 1075 \<le> 10 ^ nat (- e)))"

fun truthy :: "json \<Rightarrow> bool" where
  "truthy JNull = False"
| "truthy (JBool b) = b"
| "truthy (JInt n) = (n \<noteq> 0)"
| "truthy (JFloat m e) = (\<not> float_is_zero m e)"
| "truthy (JSpecial s) = True"
| "truthy (JString s) = (s \<noteq> [])"
| "truthy (JArray xs) = (xs \<noteq> [])"
| "truthy (JObject d) = (d \<noteq> [])"

subsection \<open>The decoder\<close>

text \<open>
  \<^verbatim>\<open>json.loads\<close> with its default settings, after the scanner of the standard
  library: blanks are space, tab, line feed and carriage return; strings are read in
  strict mode; the number pattern is
  \<^verbatim>\<open>(-?(?:0|[1-9][0-9]*))(\.[0-9]+)?([eE][-+]?[0-9]+)?\<close>.
\<close>

definition is_json_ws :: "char \<Rightarrow> bool" where
  "is_json_ws c = (c = CHR '' '' \<or> c = CHR 0x09 \<or> c = CHR 0x0A \<or> c = CHR 0x0D)"

definition skip_ws :: "string \<Rightarrow> string" where
  "skip_ws s = dropWhile is_json_ws s"

definition hex_digit :: "char \<Rightarrow> nat option" where
  "hex_digit c =
     (let n = (of_char c :: nat)
      in if 48 \<le> n \<and> n \<le> 57 then Some (n - 48)
         else if 65 \<le> n \<and> n \<le> 70 then Some (n - 55)
         else if 97 \<le> n \<and> n \<le> 102 then Some (n - 87)
         else None)"

definition hex4 :: "char \<Rightarrow> char \<Rightarrow> char \<Rightarrow> char \<Rightarrow> nat option" where
  "hex4 a b c d =
     (case (hex_digit a, hex_digit b, hex_digit c, hex_digit d) of
        (Some x, Some y, Some z, Some w) \<Rightarrow> Some (((x * 16 + y) * 16 + z) * 16 + w)
      | _ \<Rightarrow> None)"

text \<open>The one-letter escapes of a JSON string.\<close>

definition escape_char :: "char \<Rightarrow> char option" where
  "escape_char e =
     (if e = CHR 0x22 then Some (CHR 0x22)
      else if e = CHR 0x5C then Some (CHR 0x5C)
      else if e = CHR ''/'' then Some (CHR ''/'')
      else if e = CHR ''b'' then Some (CHR 0x08)
      else if e = CHR ''f'' then Some (CHR 0x0C)
      else if e = CHR ''n'' then Some (CHR 0x0A)
      else if e = CHR ''r'' then Some (CHR 0x0D)
      else if e = CHR ''t'' then Some (CHR 0x09)
      else None)"

definition cons_result :: "char \<Rightarrow> exn + (string \<times> string) \<Rightarrow> exn + (string \<times> string)" where
  "cons_result c res = (case res of Inl e \<Rightarrow> Inl e | Inr (str, r) \<Rightarrow> Inr (c # str, r))"

text \<open>
  \<open>scanstring s\<close> reads a string whose opening quote has been consumed and returns
  its content and the text after the closing quote.
\<close>

fun scanstring :: "string \<Rightarrow> exn + (string \<times> string)" where
  "scanstring [] = Inl JSONDecodeError"
| "scanstring (c # cs) =
     (if c = CHR 0x22 then Inr ([], cs)
      else if c = CHR 0x5C then
        (case cs of
           [] \<Rightarrow> Inl JSONDecodeError
         | e # r \<Rightarrow>
             if e = CHR ''u'' then
               (case r of
                  h1 # h2 # h3 # h4 # r' \<Rightarrow>
                    (case hex4 h1 h2 h3 h4 of
                       None \<Rightarrow> Inl JSONDecodeError
                     | Some n \<Rightarrow>
                         if n < 256 then cons_result (char_of n) (scanstring r')
                         else Inl Out_of_model)
                | _ \<Rightarrow> Inl JSONDecodeError)
             else
               (case escape_char e of
                  None \<Rightarrow> Inl JSONDecodeError
                | Some x \<Rightarrow> cons_result x (scanstring r)))
      else if (of_char c :: nat) < 32 then Inl JSONDecodeError
      else cons_result c (scanstring cs))"

definition digits_val :: "string \<Rightarrow> int" where
  "digits_val ds = foldl (\<lambda>a c. 10 * a + (int (of_char c) - 48)) 0 ds"

text \<open>The constants, tried where the scanner tries them.\<close>

definition scan_literal :: "string \<Rightarrow> (json \<times> string) option" where
  "scan_literal s =
     (case strip_prefix ''null'' s of Some r \<Rightarrow> Some (JNull, r) | None \<Rightarrow>
      case strip_prefix ''true'' s of Some r \<Rightarrow> Some (JBool True, r) | None \<Rightarrow>
      case strip_prefix ''false'' s of Some r \<Rightarrow> Some (JBool False, r) | None \<Rightarrow>
      case strip_prefix ''NaN'' s of Some r \<Rightarrow> Some (JSpecial ''NaN'', r) | None \<Rightarrow>
      case strip_prefix ''Infinity'' s of Some r \<Rightarrow> Some (JSpecial ''Infinity'', r) | None \<Rightarrow>
      case strip_prefix ''-Infinity'' s of Some r \<Rightarrow> Some (JSpecial ''-Infinity'', r) | None \<Rightarrow>
      None)"

text \<open>
  A number: an optional minus sign, the integer part, and the fraction and the exponent
  where they are complete. Without fraction and exponent the value is an integer.
\<close>

definition scan_int_part :: "string \<Rightarrow> (string \<times> string) option" where
  "scan_int_part s =
     (case s of
        [] \<Rightarrow> None
      | d # r \<Rightarrow>
          if d = CHR ''0'' then Some ([d], r)
          else if is_digit d then Some (d # takeWhile is_digit r, dropWhile is_digit r)
          else None)"

definition scan_frac :: "string \<Rightarrow> string \<times> string" where
  "scan_frac s =
     (case strip_prefix ''.'' s of
        None \<Rightarrow> ([], s)
      | Some f \<Rightarrow>
          if takeWhile is_digit f = [] then ([], s)
          else (takeWhile is_digit f, dropWhile is_digit f))"

definition scan_exp :: "string \<Rightarrow> int option \<times> string" where
  "scan_exp s =
     (case s of
        [] \<Rightarrow> (None, s)
      | c # x \<Rightarrow>
          if c = CHR ''e'' \<or> c = CHR ''E'' then
            (let (neg, y) =
                   (case strip_prefix ''-'' x of
                      Some y \<Rightarrow> (True, y)
                    | None \<Rightarrow>
                        (case strip_prefix ''+'' x of Some y \<Rightarrow> (False, y) | None \<Rightarrow> (False, x)))
             in if takeWhile is_digit y = [] then (None, s)
                else (Some ((if neg then - 1 else 1) * digits_val (takeWhile is_digit y)),
                      dropWhile is_digit y))
          else (None, s))"

definition scan_number :: "string \<Rightarrow> (json \<times> string) option" where
  "scan_number s =
     (let (neg, s1) = (case strip_prefix ''-'' s of Some r \<Rightarrow> (True, r) | None \<Rightarrow> (False, s));
          sgn = (if neg then - 1 else 1)
      in case scan_int_part s1 of
           None \<Rightarrow> None
         | Some (ip, r1) \<Rightarrow>
             (let (fp, r2) = scan_frac r1; (ex, r3) = scan_exp r2
              in if fp = [] \<and> ex = None then Some (JInt (sgn * digits_val ip), r3)
                 else Some (JFloat (sgn * digits_val (ip @ fp))
                              ((case ex of None \<Rightarrow> 0 | Some x \<Rightarrow> x) - int (length fp)), r3)))"

text \<open>
  The scanner. \<open>scan_once\<close> reads one value at the start of the text;
  \<open>parse_array\<close> reads the elements of an array from the start of an element on, and
  \<open>parse_object\<close> the members of an object from after the opening quote of a key on.
  The first argument bounds the depth of the calls.
\<close>

fun scan_once :: "nat \<Rightarrow> string \<Rightarrow> exn + (json \<times> string)"
  and parse_array :: "nat \<Rightarrow> json list \<Rightarrow> string \<Rightarrow> exn + (json \<times> string)"
  and parse_object :: "nat \<Rightarrow> (string \<times> json) list \<Rightarrow> string \<Rightarrow> exn + (json \<times> string)"
where
  "scan_once 0 s = Inl RecursionError"
| "scan_once (Suc n) s =
     (case s of
        [] \<Rightarrow> Inl JSONDecodeError
      | c # cs \<Rightarrow>
          if c = CHR 0x22 then
            (case scanstring cs of
               Inl e \<Rightarrow> Inl e
             | Inr (str, r) \<Rightarrow> Inr (JString str, r))
          else if c = CHR ''{'' then
            (case strip_prefix ''}'' (skip_ws cs) of
               Some r \<Rightarrow> Inr (JObject [], r)
             | None \<Rightarrow>
                 (case strip_prefix [CHR 0x22] (skip_ws cs) of
                    Some r \<Rightarrow> parse_object n [] r
                  | None \<Rightarrow> Inl JSONDecodeError))
          else if c = CHR ''['' then
            (case strip_prefix '']'' (skip_ws cs) of
               Some r \<Rightarrow> Inr (JArray [], r)
             | None \<Rightarrow> parse_array n [] (skip_ws cs))
          else
            (case scan_literal s of
               Some res \<Rightarrow> Inr res
             | None \<Rightarrow>
                 (case scan_number s of
                    Some res \<Rightarrow> Inr res
                  | None \<Rightarrow> Inl JSONDecodeError)))"
| "parse_array 0 acc s = Inl RecursionError"
| "parse_array (Suc n) acc s =
     (case scan_once n s of
        Inl e \<Rightarrow> Inl e
      | Inr (v, r) \<Rightarrow>
          (case skip_ws r of
             [] \<Rightarrow> Inl JSONDecodeError
           | c # r' \<Rightarrow>
               if c = CHR '']'' then Inr (JArray (acc @ [v]), r')
               else if c = CHR '','' then parse_array n (acc @ [v]) (skip_ws r')
               else Inl JSONDecodeError))"
| "parse_object 0 acc s = Inl RecursionError"
| "parse_object (Suc n) acc s =
     (case scanstring s of
        Inl e \<Rightarrow> Inl e
      | Inr (key, r) \<Rightarrow>
          (case strip_prefix '':'' (skip_ws r) of
             None \<Rightarrow> Inl JSONDecodeError
           | Some r1 \<Rightarrow>
               (case scan_once n (skip_ws r1) of
                  Inl e \<Rightarrow> Inl e
                | Inr (v, r2) \<Rightarrow>
                    (case skip_ws r2 of
                       [] \<Rightarrow> Inl JSONDecodeError
                     | c # r3 \<Rightarrow>
                         if c = CHR ''}'' then Inr (JObject (dict_set acc key v), r3)
                         else if c = CHR '','' then
                           (case strip_prefix [CHR 0x22] (skip_ws r3) of
                              None \<Rightarrow> Inl JSONDecodeError
                            | Some r4 \<Rightarrow> parse_object n (dict_set acc key v) r4)
                         else Inl JSONDecodeError))))"

text \<open>
  \<^verbatim>\<open>json.loads(s)\<close>: one value between optional blanks, and nothing after it. The
  scanner consumes a character before the depth of its calls can grow by two, so the
  bound given here is never reached (\<open>json_loads_no_recursion_error\<close> below); the
  recursion limit of the interpreter itself is not modelled.
\<close>

definition json_loads :: "string \<Rightarrow> exn + json" where
  "json_loads s =
     (case scan_once (2 * length s + 2) (skip_ws s) of
        Inl e \<Rightarrow> Inl e
      | Inr (v, r) \<Rightarrow> if skip_ws r = [] then Inr v else Inl JSONDecodeError)"

text \<open>
  \<^verbatim>\<open>re.search(r'\[[\s\S]*\]', text)\<close>: the span from the first opening bracket to
  the last closing bracket after it.
\<close>

definition json_span :: "string \<Rightarrow> string option" where
  "json_span s =
     (case dropWhile (\<lambda>c. c \<noteq> CHR ''['') s of
        [] \<Rightarrow> None
      | b # t \<Rightarrow>
          (case rev (dropWhile (\<lambda>c. c \<noteq> CHR '']'') (rev t)) of
             [] \<Rightarrow> None
           | u \<Rightarrow> Some (b # u)))"

section \<open>The world outside the program\<close>

text \<open>
  What the program cannot decide by itself is a parameter of the model:
  \<^item> \<open>urlparse\<close>: the scheme and the network location that
    \<^verbatim>\<open>urllib.parse.urlparse\<close> finds in a URL (\<open>None\<close> when it raises);
  \<^item> \<open>http_head\<close> and \<open>http_get\<close>: the outcome of a request, given the
    \<open>User-Agent\<close> header and the URL;
  \<^item> \<open>deadline_missed\<close>: whether validating these items takes longer than the 30
    seconds that \<^verbatim>\<open>as_completed\<close> allows;
  \<^item> \<open>url_lookup\<close>: the outcome of the secondary model call for a title and a
    source, reduced to the URIs of its grounding chunks;
  \<^item> \<open>str_of\<close>: the text \<^verbatim>\<open>str()\<close> gives for a value that is not a string;
  \<^item> \<open>now\<close>: the clock, \<^verbatim>\<open>datetime.now().isoformat()\<close>.
\<close>

datatype http_reply =
    Reply nat string string  \<comment> \<open>status code, \<open>content-type\<close> header, body\<close>
  | Timed_out                \<comment> \<open>\<^verbatim>\<open>requests.exceptions.Timeout\<close>\<close>
  | Request_failed           \<comment> \<open>any other \<^verbatim>\<open>RequestException\<close>\<close>

datatype lookup_reply =
    Grounding "json list"    \<comment> \<open>the URIs of the grounding chunks, none when there are no chunks\<close>
  | Lookup_raises exn        \<comment> \<open>the call, or reading its response, raises\<close>

record world =
  urlparse :: "string \<Rightarrow> (string \<times> string) option"
  http_head :: "string \<Rightarrow> string \<Rightarrow> http_reply"
  http_get :: "string \<Rightarrow> string \<Rightarrow> http_reply"
  deadline_missed :: "json list \<Rightarrow> bool"
  url_lookup :: "json \<Rightarrow> json \<Rightarrow> lookup_reply"
  str_of :: "json \<Rightarrow> string"
  now :: string

text \<open>The text of a value inside an f-string.\<close>

definition py_str :: "world \<Rightarrow> json \<Rightarrow> string" where
  "py_str w v = (case v of JString s \<Rightarrow> s | _ \<Rightarrow> str_of w v)"

section \<open>The content validator\<close>

text \<open>
  The dictionary \<^verbatim>\<open>validation_result\<close>. The messages stored under \<open>error\<close> are
  only printed; the model records which of them it is.
\<close>

datatype validation_error =
    Invalid_URL_format
  | Validation_error
  | No_video_id
  | Video_not_found
  | Video_inaccessible nat
  | Not_a_podcast
  | Podcast_inaccessible nat
  | Timeout
  | Request_error

record validation_result =
  result_url :: json
  is_valid :: bool
  status_code :: "nat option"
  error :: "validation_error option"
  content_type_detected :: "string option"
  title_verified :: bool

text \<open>\<^verbatim>\<open>needle in hay\<close> for strings.\<close>

fun contains :: "string \<Rightarrow> string \<Rightarrow> bool" where
  "contains needle [] = (needle = [])"
| "contains needle (c # cs) = (strip_prefix needle (c # cs) \<noteq> None \<or> contains needle cs)"

text \<open>\<^verbatim>\<open>str.lower()\<close> on code points below 256.\<close>

definition lower_char :: "char \<Rightarrow> char" where
  "lower_char c =
     (let n = (of_char c :: nat)
      in if (65 \<le> n \<and> n \<le> 90) \<or> (192 \<le> n \<and> n \<le> 222 \<and> n \<noteq> 215) then char_of (n + 32)
         else c)"

definition lower :: "string \<Rightarrow> string" where
  "lower s = map lower_char s"

text \<open>
  \<^verbatim>\<open>re.search(r'(?:youtube\.com/watch\?v=|youtu\.be/)([a-zA-Z0-9_-]+)', url)\<close>
  finds a match.
\<close>

definition is_id_char :: "char \<Rightarrow> bool" where
  "is_id_char c =
     (let n = (of_char c :: nat)
      in (97 \<le> n \<and> n \<le> 122) \<or> (65 \<le> n \<and> n \<le> 90) \<or> (48 \<le> n \<and> n \<le> 57)
         \<or> c = CHR ''_'' \<or> c = CHR ''-'')"

fun has_video_id :: "string \<Rightarrow> bool" where
  "has_video_id [] = False"
| "has_video_id (c # cs) =
     ((case first_of [''youtube.com/watch?v='', ''youtu.be/''] (c # cs) of
         Some (d # r) \<Rightarrow> is_id_char d
       | _ \<Rightarrow> False)
      \<or> has_video_id cs)"

text \<open>
  The group of the leftmost match of \<^verbatim>\<open><title>([^<]+)</title>\<close>.
\<close>

fun title_match :: "string \<Rightarrow> string option" where
  "title_match [] = None"
| "title_match (c # cs) =
     (case strip_prefix ''<title>'' (c # cs) of
        None \<Rightarrow> title_match cs
      | Some r \<Rightarrow>
          if takeWhile (\<lambda>x. x \<noteq> CHR ''<'') r \<noteq> []
             \<and> strip_prefix ''</title>'' (dropWhile (\<lambda>x. x \<noteq> CHR ''<'') r) \<noteq> None
          then Some (takeWhile (\<lambda>x. x \<noteq> CHR ''<'') r)
          else title_match cs)"

text \<open>The two \<open>User-Agent\<close> headers: the session's, and that of the general check.\<close>

definition session_agent :: string where
  "session_agent = ''Mozilla/5.0 (Macintosh; Intel Mac OS X 10_15_7) AppleWebKit/537.36 (KHTML, like Gecko) Chrome/91.0.4472.124 Safari/537.36''"

definition validator_agent :: string where
  "validator_agent = ''Mozilla/5.0 (compatible; URL-Validator/1.0)''"

definition validate_youtube_video :: "world \<Rightarrow> string \<Rightarrow> validation_result \<Rightarrow> validation_result" where
  "validate_youtube_video w u result =
     (if \<not> has_video_id u then result\<lparr>error := Some No_video_id\<rparr>
      else
        (case http_head w session_agent u of
           Timed_out \<Rightarrow> result\<lparr>error := Some Timeout\<rparr>
         | Request_failed \<Rightarrow> result\<lparr>error := Some Request_error\<rparr>
         | Reply st ct body \<Rightarrow>
             if st = 200 then
               (let valid = result\<lparr>status_code := Some st, is_valid := True,
                                   content_type_detected := Some ''video''\<rparr>
                in case http_get w session_agent u of
                     Reply st' ct' page \<Rightarrow>
                       if st' = 200 then
                         (case title_match page of
                            Some t \<Rightarrow>
                              if \<not> contains ''YouTube'' t then valid\<lparr>title_verified := True\<rparr>
                              else valid
                          | None \<Rightarrow> valid)
                       else valid
                   | _ \<Rightarrow> valid)
             else if st = 404 \<or> st = 410 then
               result\<lparr>status_code := Some st, error := Some Video_not_found\<rparr>
             else result\<lparr>status_code := Some st, error := Some (Video_inaccessible st)\<rparr>))"

definition podcast_platforms :: "string list" where
  "podcast_platforms =
     [''spotify.com'', ''apple.com/podcasts'', ''podcasts.apple.com'', ''anchor.fm'',
      ''soundcloud.com'']"

definition validate_podcast :: "world \<Rightarrow> string \<Rightarrow> validation_result \<Rightarrow> validation_result" where
  "validate_podcast w u result =
     (case http_head w session_agent u of
        Timed_out \<Rightarrow> result\<lparr>error := Some Timeout\<rparr>
      | Request_failed \<Rightarrow> result\<lparr>error := Some Request_error\<rparr>
      | Reply st ct body \<Rightarrow>
          if st = 200 then
            (if list_ex (\<lambda>platform. contains platform (lower u)) podcast_platforms
                \<or> contains ''audio/'' (lower ct)
             then result\<lparr>status_code := Some st, is_valid := True,
                         content_type_detected := Some ''podcast''\<rparr>
             else result\<lparr>status_code := Some st, error := Some Not_a_podcast\<rparr>)
          else result\<lparr>status_code := Some st, error := Some (Podcast_inaccessible st)\<rparr>)"

text \<open>
  \<^verbatim>\<open>_validate_general_url\<close>: a HEAD request and, when it raises any
  \<^verbatim>\<open>RequestException\<close>, a GET request; the URL is valid when the response has
  status 200 or 403.
\<close>

definition validate_general_url :: "world \<Rightarrow> string \<Rightarrow> validation_result \<Rightarrow> validation_result" where
  "validate_general_url w u result =
     (case (case http_head w validator_agent u of
              Reply st ct body \<Rightarrow> Reply st ct body
            | _ \<Rightarrow> http_get w validator_agent u) of
        Reply st ct body \<Rightarrow>
          result\<lparr>status_code := Some st, is_valid := (st = 200 \<or> st = 403)\<rparr>
      | Timed_out \<Rightarrow> result\<lparr>error := Some Timeout\<rparr>
      | Request_failed \<Rightarrow> result\<lparr>error := Some Request_error\<rparr>)"

text \<open>
  \<^verbatim>\<open>validate_url\<close>. Its arguments come from \<^verbatim>\<open>item.get\<close> and may be any value:
  \<^verbatim>\<open>urlparse\<close> takes a false value for an empty URL and raises on a true value that
  is not a string; whatever is raised inside is caught and recorded.
\<close>

definition validate_url :: "world \<Rightarrow> json \<Rightarrow> json \<Rightarrow> validation_result" where
  "validate_url w url_value content_type =
     (let validation_result =
            \<lparr>result_url = url_value, is_valid = False, status_code = None, error = None,
             content_type_detected = None, title_verified = False\<rparr>
      in case url_value of
           JString u \<Rightarrow>
             (case urlparse w u of
                None \<Rightarrow> validation_result\<lparr>error := Some Validation_error\<rparr>
              | Some (scheme, netloc) \<Rightarrow>
                  if scheme = [] \<or> netloc = [] then
                    validation_result\<lparr>error := Some Invalid_URL_format\<rparr>
                  else if content_type = JString ''video'' \<and> contains ''youtube.com'' netloc then
                    validate_youtube_video w u validation_result
                  else if content_type = JString ''video'' \<and> contains ''youtu.be'' netloc then
                    validate_youtube_video w u validation_result
                  else if content_type = JString ''podcast'' then
                    validate_podcast w u validation_result
                  else validate_general_url w u validation_result)
         | _ \<Rightarrow>
             if truthy url_value then validation_result\<lparr>error := Some Validation_error\<rparr>
             else validation_result\<lparr>error := Some Invalid_URL_format\<rparr>)"

text \<open>
  \<^verbatim>\<open>validate_single_item\<close> on a dictionary: a valid item is returned with its
  \<open>validation\<close> record, an invalid one is dropped.
\<close>

definition validate_single_item :: "world \<Rightarrow> (string \<times> json) list \<Rightarrow> json option" where
  "validate_single_item w item =
     (let validation_result =
            validate_url w (dict_get item ''url'' (JString [])) (dict_get item ''type'' (JString []))
      in if is_valid validation_result then
           Some (JObject (dict_set item ''validation''
             (JObject
               [(''validated_at'', JString (now w)),
                (''status_code'',
                   case status_code validation_result of None \<Rightarrow> JNull | Some n \<Rightarrow> JInt (int n)),
                (''content_type_verified'',
                   case content_type_detected validation_result of
                     None \<Rightarrow> JNull
                   | Some t \<Rightarrow> JString t)])))
         else None)"

definition is_dict :: "json \<Rightarrow> bool" where
  "is_dict v = (case v of JObject d \<Rightarrow> True | _ \<Rightarrow> False)"

definition validate_item :: "world \<Rightarrow> json \<Rightarrow> json option" where
  "validate_item w v = (case v of JObject item \<Rightarrow> validate_single_item w item | _ \<Rightarrow> None)"

text \<open>
  \<^verbatim>\<open>validate_content_batch\<close>. For an item that is not a dictionary,
  \<^verbatim>\<open>item.get\<close> raises \<open>AttributeError\<close> in the worker and again in both handlers
  that print the item's title, so the exception leaves the function. When the deadline
  of \<^verbatim>\<open>as_completed\<close> passes, its \<open>TimeoutError\<close> leaves the function as well.
  The valid items are returned in the order their validations complete; the model
  lists them in the order of submission, and nothing proved here depends on the order.
\<close>

definition validate_content_batch :: "world \<Rightarrow> json list \<Rightarrow> exn + json list" where
  "validate_content_batch w content_items =
     (if list_ex (\<lambda>item. \<not> is_dict item) content_items then Inl AttributeError
      else if deadline_missed w content_items then Inl TimeoutError
      else Inr (List.map_filter (validate_item w) content_items))"

section \<open>Content items and the result normaliser\<close>

text \<open>
  The dataclass \<^verbatim>\<open>ContentItem\<close>. A dataclass does not check the types of its
  fields, so each field holds whatever value it is given; \<open>JNull\<close> stands for
  \<open>None\<close>.
\<close>

record content_item =
  title :: json
  type :: json
  description :: json
  source :: json
  relevance :: json
  url :: json
  timestamp :: json
  validation :: json

definition content_item_fields :: "string list" where
  "content_item_fields =
     [''title'', ''type'', ''description'', ''source'', ''relevance'', ''url'', ''timestamp'',
      ''validation'']"

definition required_fields :: "string list" where
  "required_fields = [''title'', ''type'', ''description'', ''source'', ''relevance'']"

text \<open>
  \<^verbatim>\<open>ContentItem(**item)\<close>: \<open>TypeError\<close> when \<open>item\<close> is not a mapping, has a key
  that is no field, or lacks a field without default; \<open>url\<close>, \<open>timestamp\<close> and
  \<open>validation\<close> default to \<open>None\<close>, and \<^verbatim>\<open>__post_init__\<close> replaces a \<open>None\<close>
  timestamp by the current time.
\<close>

definition ContentItem :: "world \<Rightarrow> json \<Rightarrow> exn + content_item" where
  "ContentItem w item =
     (case item of
        JObject d \<Rightarrow>
          if list_ex (\<lambda>k. k \<notin> set content_item_fields) (map fst d) then Inl TypeError
          else if list_ex (\<lambda>k. map_of d k = None) required_fields then Inl TypeError
          else Inr
            \<lparr>title = dict_get d ''title'' JNull,
             type = dict_get d ''type'' JNull,
             description = dict_get d ''description'' JNull,
             source = dict_get d ''source'' JNull,
             relevance = dict_get d ''relevance'' JNull,
             url = dict_get d ''url'' JNull,
             timestamp =
               (if dict_get d ''timestamp'' JNull = JNull then JString (now w)
                else dict_get d ''timestamp'' JNull),
             validation = dict_get d ''validation'' JNull\<rparr>
      | _ \<Rightarrow> Inl TypeError)"

text \<open>
  \<^verbatim>\<open>_clean_metadata_from_text\<close> on whatever \<^verbatim>\<open>item.get('description', '')\<close>
  gives: a false value is returned as it is, a string is cleaned, and \<^verbatim>\<open>re.sub\<close>
  raises \<open>TypeError\<close> on any other value.
\<close>

definition clean_metadata_from_value :: "json \<Rightarrow> exn + json" where
  "clean_metadata_from_value text_value =
     (if \<not> truthy text_value then Inr text_value
      else case text_value of
             JString s \<Rightarrow> Inr (JString (clean_metadata_from_text s))
           | _ \<Rightarrow> Inl TypeError)"

text \<open>
  The dictionary \<^verbatim>\<open>filtered_item\<close> that both streaming routes build from a raw
  item; \<^verbatim>\<open>item.get\<close> raises \<open>AttributeError\<close> when the item is no dictionary.
\<close>

definition filtered_item :: "json \<Rightarrow> exn + json" where
  "filtered_item item =
     (case item of
        JObject d \<Rightarrow>
          (case clean_metadata_from_value (dict_get d ''description'' (JString [])) of
             Inl e \<Rightarrow> Inl e
           | Inr cleaned \<Rightarrow>
               Inr (JObject
                 [(''title'', dict_get d ''title'' (JString [])),
                  (''type'', dict_get d ''type'' (JString [])),
                  (''description'', cleaned),
                  (''source'', dict_get d ''source'' (JString [])),
                  (''relevance'', dict_get d ''relevance'' (JString [])),
                  (''url'', dict_get d ''url'' (JString [])),
                  (''validation'', dict_get d ''validation'' JNull)]))
      | _ \<Rightarrow> Inl AttributeError)"

definition normalize_item :: "world \<Rightarrow> json \<Rightarrow> exn + content_item" where
  "normalize_item w item =
     (case filtered_item item of Inl e \<Rightarrow> Inl e | Inr f \<Rightarrow> ContentItem w f)"

text \<open>The loop that converts a list of items; it ends at the first exception.\<close>

fun normalize :: "world \<Rightarrow> json list \<Rightarrow> exn + content_item list" where
  "normalize w [] = Inr []"
| "normalize w (item # items) =
     (case normalize_item w item of
        Inl e \<Rightarrow> Inl e
      | Inr c \<Rightarrow> (case normalize w items of Inl e \<Rightarrow> Inl e | Inr cs \<Rightarrow> Inr (c # cs)))"

text \<open>\<^verbatim>\<open>_get_mock_results\<close>.\<close>

definition get_mock_results :: "json list" where
  "get_mock_results =
     [JObject
        [(''title'', JString ''Attention Is All You Need - Transformer Paper''),
         (''type'', JString ''academic''),
         (''description'', JString ''The groundbreaking paper that introduced the Transformer architecture, revolutionizing natural language processing.''),
         (''source'', JString ''arXiv''),
         (''url'', JString ''https://arxiv.org/abs/1706.03762''),
         (''relevance'', JString ''Foundational research in modern AI'')]]"

section \<open>The link resolver\<close>

text \<open>
  Lists and dictionaries cannot be keys of a Python dictionary. The mapping from titles
  to links is an association list; titles are compared as JSON values.
\<close>

definition hashable :: "json \<Rightarrow> bool" where
  "hashable v = (case v of JArray xs \<Rightarrow> False | JObject d \<Rightarrow> False | _ \<Rightarrow> True)"

text \<open>The fallback link that \<^verbatim>\<open>generate_links_by_title_parallel\<close> builds.\<close>

definition search_link :: "world \<Rightarrow> json \<Rightarrow> json \<Rightarrow> json" where
  "search_link w t s =
     JString (''https://google.com/search?q='' @ py_str w t @ '' '' @ py_str w s)"

text \<open>
  \<^verbatim>\<open>process_single_item\<close>: the item's title with the URIs of the grounding chunks,
  or with the fallback link when there are no chunks.
\<close>

definition process_single_item :: "world \<Rightarrow> json \<Rightarrow> exn + (json \<times> json list)" where
  "process_single_item w item =
     (case ContentItem w item of
        Inl e \<Rightarrow> Inl e
      | Inr content_item \<Rightarrow>
          (case url_lookup w (title content_item) (source content_item) of
             Lookup_raises e \<Rightarrow> Inl e
           | Grounding grounding_chunks \<Rightarrow>
               if grounding_chunks = [] then
                 Inr (title content_item,
                      [search_link w (title content_item) (source content_item)])
               else Inr (title content_item, grounding_chunks)))"

text \<open>
  \<^verbatim>\<open>ThreadPoolExecutor(max_workers=n)\<close> raises \<open>ValueError\<close> unless \<open>n\<close> is
  positive.
\<close>

definition ThreadPoolExecutor :: "nat \<Rightarrow> exn + nat" where
  "ThreadPoolExecutor max_workers = (if max_workers = 0 then Inl ValueError else Inr max_workers)"

text \<open>
  The loop over the completed futures. The \<open>try\<close> block stores the links under the
  title; the handler builds the item again and stores the fallback link, and what the
  handler raises leaves the function. Futures are taken in the order they complete;
  the model takes the items in the order of the list it is given.
\<close>

definition store_links ::
  "(json \<times> json list) list \<Rightarrow> json \<Rightarrow> json list \<Rightarrow> exn + (json \<times> json list) list" where
  "store_links links t item_links =
     (if hashable t then Inr (dict_set links t item_links) else Inl TypeError)"

fun collect_links ::
  "world \<Rightarrow> (json \<times> json list) list \<Rightarrow> json list \<Rightarrow> exn + (json \<times> json list) list" where
  "collect_links w links [] = Inr links"
| "collect_links w links (item # items) =
     (case (case process_single_item w item of
              Inl e \<Rightarrow> Inl e
            | Inr (t, item_links) \<Rightarrow> store_links links t item_links) of
        Inr links' \<Rightarrow> collect_links w links' items
      | Inl exc \<Rightarrow>
          (case ContentItem w item of
             Inl e \<Rightarrow> Inl e
           | Inr content_item \<Rightarrow>
               (case store_links links (title content_item)
                       [search_link w (title content_item) (source content_item)] of
                  Inl e \<Rightarrow> Inl e
                | Inr links' \<Rightarrow> collect_links w links' items)))"

definition generate_links_by_title_parallel ::
  "world \<Rightarrow> json list \<Rightarrow> exn + (json \<times> json list) list" where
  "generate_links_by_title_parallel w content_items =
     (case ThreadPoolExecutor (min (length content_items) 10) of
        Inl e \<Rightarrow> Inl e
      | Inr executor \<Rightarrow> collect_links w [] content_items)"

section \<open>The model stream\<close>

text \<open>
  A chunk of the model's response, as far as the routes look into it: the parts of the
  content of its candidates, each with a text and a flag that marks a thought, and the
  flat text of the chunk. \<open>None\<close> stands for an attribute that is missing or
  \<open>None\<close>; the routes treat both alike.
\<close>

record part =
  part_text :: "string option"
  part_thought :: bool

record candidate =
  content_parts :: "part list option"

record chunk =
  candidates :: "candidate list"
  chunk_text :: "string option"

text \<open>
  The texts of the parts that have a text and are thoughts (or are not), in order.
\<close>

definition part_texts :: "bool \<Rightarrow> part list \<Rightarrow> string list" where
  "part_texts thinking ps =
     List.map_filter
       (\<lambda>p. case part_text p of
               None \<Rightarrow> None
             | Some t \<Rightarrow> if t \<noteq> [] \<and> part_thought p = thinking then Some t else None)
       ps"

text \<open>
  The classification at the head of each loop body: the thinking text and the content
  text of a chunk.
\<close>

definition classify :: "chunk \<Rightarrow> string option \<times> string option" where
  "classify ch =
     (let (thinking_text, content_text) =
            (case candidates ch of
               [] \<Rightarrow> (None, None)
             | cand # others \<Rightarrow>
                 (case content_parts cand of
                    None \<Rightarrow> (None, None)
                  | Some ps \<Rightarrow>
                      if ps = [] then (None, None)
                      else
                        (if part_texts True ps = [] then None
                         else Some (concat (part_texts True ps)),
                         if part_texts False ps = [] then None
                         else Some (concat (part_texts False ps)))))
      in (thinking_text, if content_text = None then chunk_text ch else content_text))"

text \<open>
  What the model sends for one request: the chunks it yields, and whether the call
  raises after them (before any chunk when there are none).
\<close>

record model_stream =
  chunks :: "chunk list"
  fails :: bool

text \<open>\<^verbatim>\<open>_create_mock_streaming_response\<close>.\<close>

definition MockChunk :: "string \<Rightarrow> string option \<Rightarrow> chunk" where
  "MockChunk t thinking_text =
     \<lparr>candidates =
        [\<lparr>content_parts = Some
            ((case thinking_text of
                None \<Rightarrow> []
              | Some th \<Rightarrow> if th \<noteq> [] then [\<lparr>part_text = Some th, part_thought = True\<rparr>] else [])
             @ (if t \<noteq> [] then [\<lparr>part_text = Some t, part_thought = False\<rparr>] else []))\<rparr>],
      chunk_text = Some t\<rparr>"

definition thinking_chunks :: "string list" where
  "thinking_chunks =
     [''I need to search for relevant AI content based on the user's query.'',
      ''Let me analyze what would be most valuable and current in the AI space.'',
      ''I'll look for recent developments and foundational papers that would be helpful.'',
      ''Now I'll compile the search results into a structured JSON format.'']"

fun join_lines :: "string list \<Rightarrow> string" where
  "join_lines [] = []"
| "join_lines [l] = l"
| "join_lines (l # ls) = l @ CHR 0x0A # join_lines ls"

definition results_text :: string where
  "results_text = join_lines
     [''['',
      ''            {'',
      ''                \"title\": \"Attention Is All You Need - Transformer Paper\",'',
      ''                \"type\": \"academic\", '',
      ''                \"description\": \"The groundbreaking paper that introduced the Transformer architecture, revolutionizing natural language processing.\",'',
      ''                \"source\": \"arXiv\",'',
      ''                \"relevance\": \"Foundational research in modern AI\"'',
      ''            }'',
      ''        ]'']"

definition create_mock_streaming_response :: "chunk list" where
  "create_mock_streaming_response =
     map (\<lambda>thinking_text. MockChunk [] (Some thinking_text)) thinking_chunks
     @ [MockChunk results_text None]"

text \<open>
  \<^verbatim>\<open>_call_gemini_api_for_results_streaming\<close>: without a key the mock response;
  otherwise the chunks of the model and, when the call raises, the mock response
  after them. The two public generators hand these chunks on.
\<close>

definition call_gemini_api_for_results_streaming :: "string \<Rightarrow> model_stream \<Rightarrow> chunk list" where
  "call_gemini_api_for_results_streaming api_key stream =
     (if api_key = [] then create_mock_streaming_response
      else chunks stream @ (if fails stream then create_mock_streaming_response else []))"

definition search_content_streaming :: "string \<Rightarrow> model_stream \<Rightarrow> chunk list" where
  "search_content_streaming api_key stream = call_gemini_api_for_results_streaming api_key stream"

definition get_recommendations_streaming :: "string \<Rightarrow> model_stream \<Rightarrow> chunk list" where
  "get_recommendations_streaming api_key stream =
     call_gemini_api_for_results_streaming api_key stream"

section \<open>The streaming routes\<close>

text \<open>
  The events a streaming route yields. The content of an \<open>error\<close> event is the text
  of the exception; the model keeps the exception.
\<close>

datatype event =
    Thought string
  | Parsing_complete nat
  | Results "content_item list"
  | Complete
  | Error exn

definition thought_events :: "string option \<Rightarrow> event list" where
  "thought_events thinking_text =
     (case thinking_text of None \<Rightarrow> [] | Some t \<Rightarrow> if t \<noteq> [] then [Thought t] else [])"

text \<open>The exceptions that the clause \<^verbatim>\<open>except (json.JSONDecodeError, KeyError)\<close> catches.\<close>

definition caught :: "exn \<Rightarrow> bool" where
  "caught e = (e = JSONDecodeError \<or> e = KeyError)"

subsection \<open>The search route\<close>

text \<open>
  The body of the \<open>try\<close> block after a successful \<^verbatim>\<open>json.loads\<close>: the events it
  yields and the exception that ends it, if any.
\<close>

definition send_search_results :: "world \<Rightarrow> json list \<Rightarrow> event list \<times> exn option" where
  "send_search_results w results_data =
     (case validate_content_batch w results_data of
        Inl e \<Rightarrow> ([Parsing_complete (length results_data)], Some e)
      | Inr validated_data \<Rightarrow>
          (case normalize w
                  (if validated_data = [] \<and> results_data \<noteq> [] then get_mock_results
                   else validated_data) of
             Inl e \<Rightarrow> ([Parsing_complete (length results_data)], Some e)
           | Inr results \<Rightarrow>
               ([Parsing_complete (length results_data), Results results], None)))"

text \<open>
  How the loop is left: at the end of the stream or by \<open>break\<close>, with the value of
  \<open>results_sent\<close>, or by an exception that no inner clause catches.
\<close>

datatype loop_exit = Loop_done bool | Loop_raised exn

text \<open>
  The extraction that both routes attempt on the accumulated content: nothing when the
  pattern finds no span, else what \<^verbatim>\<open>json.loads\<close> makes of the span.
\<close>

definition extract_results :: "string \<Rightarrow> (exn + json) option" where
  "extract_results accumulated_content =
     (case json_span accumulated_content of
        None \<Rightarrow> None
      | Some json_match \<Rightarrow> Some (json_loads json_match))"

text \<open>
  One round of the loop of \<^verbatim>\<open>generate_stream\<close> on the accumulated content: the
  events it yields, and either the accumulated content for the next round or the way
  the loop is left. The span that the pattern finds starts with a bracket, so a text
  that \<^verbatim>\<open>json.loads\<close> accepts there is a list (\<open>extract_results_is_list\<close>
  below); the last case is there for totality only.
\<close>

definition search_step ::
  "world \<Rightarrow> string \<Rightarrow> chunk \<Rightarrow> event list \<times> (string + loop_exit)" where
  "search_step w accumulated_content ch =
     (let (thinking_text, content_text) = classify ch;
          thoughts = thought_events thinking_text
      in case content_text of
           None \<Rightarrow> (thoughts, Inl accumulated_content)
         | Some c \<Rightarrow>
             if c = [] then (thoughts, Inl accumulated_content)
             else
               (case extract_results (accumulated_content @ c) of
                  None \<Rightarrow> (thoughts, Inl (accumulated_content @ c))
                | Some (Inl e) \<Rightarrow>
                    if caught e then (thoughts, Inl (accumulated_content @ c))
                    else (thoughts, Inr (Loop_raised e))
                | Some (Inr (JArray results_data)) \<Rightarrow>
                    (case send_search_results w results_data of
                       (evs, None) \<Rightarrow> (thoughts @ evs, Inr (Loop_done True))
                     | (evs, Some e) \<Rightarrow>
                         if caught e then (thoughts @ evs, Inl (accumulated_content @ c))
                         else (thoughts @ evs, Inr (Loop_raised e)))
                | Some (Inr other) \<Rightarrow> (thoughts, Inr (Loop_raised TypeError))))"

fun search_loop :: "world \<Rightarrow> string \<Rightarrow> chunk list \<Rightarrow> event list \<times> loop_exit" where
  "search_loop w accumulated_content [] = ([], Loop_done False)"
| "search_loop w accumulated_content (ch # rest) =
     (case search_step w accumulated_content ch of
        (evs, Inr left) \<Rightarrow> (evs, left)
      | (evs, Inl accumulated_content') \<Rightarrow>
          (case search_loop w accumulated_content' rest of
             (evs', left) \<Rightarrow> (evs @ evs', left)))"

text \<open>
  What follows the loops of both routes: the mock results when no results were sent,
  then the completion signal; an exception on the way ends in the outer handler.
\<close>

definition finish_stream :: "world \<Rightarrow> bool \<Rightarrow> event list" where
  "finish_stream w results_sent =
     (if results_sent then [Complete]
      else
        (case normalize w get_mock_results of
           Inl e \<Rightarrow> [Error e]
         | Inr results \<Rightarrow> [Results results, Complete]))"

text \<open>
  \<^verbatim>\<open>generate_stream\<close> of the search route, for a query and a key that the route has
  found to be non-empty. Building the client in \<^verbatim>\<open>set_api_key\<close> is taken to succeed,
  here and in the recommendation route.
\<close>

definition generate_stream :: "world \<Rightarrow> string \<Rightarrow> string \<Rightarrow> model_stream \<Rightarrow> event list" where
  "generate_stream w query api_key stream =
     Thought (''Analyzing your query \"'' @ query
              @ ''\" to find the most relevant and current content...'')
     # (case search_loop w [] (search_content_streaming api_key stream) of
          (evs, Loop_raised e) \<Rightarrow> evs @ [Error e]
        | (evs, Loop_done results_sent) \<Rightarrow> evs @ finish_stream w results_sent)"

subsection \<open>The recommendation route\<close>

text \<open>The loop of \<^verbatim>\<open>generate_stream_attempt\<close>: every chunk is consumed.\<close>

fun consume_chunks :: "string \<Rightarrow> chunk list \<Rightarrow> event list \<times> string" where
  "consume_chunks accumulated_content [] = ([], accumulated_content)"
| "consume_chunks accumulated_content (ch # rest) =
     (case consume_chunks
             (case snd (classify ch) of
                None \<Rightarrow> accumulated_content
              | Some c \<Rightarrow> accumulated_content @ c)
             rest of
        (evs, final_content) \<Rightarrow> (thought_events (fst (classify ch)) @ evs, final_content))"

text \<open>
  The assignment of a URL to one item: the first link stored under the item's title,
  or else a search link; \<^verbatim>\<open>item['title']\<close> raises \<open>KeyError\<close> when the key is
  missing and \<open>TypeError\<close> when the item is no dictionary, and the test
  \<^verbatim>\<open>in links_dict\<close> raises \<open>TypeError\<close> for a title that cannot be a key.
\<close>

definition set_item_url :: "world \<Rightarrow> (json \<times> json list) list \<Rightarrow> json \<Rightarrow> exn + json" where
  "set_item_url w links_dict item =
     (case item of
        JObject d \<Rightarrow>
          (case map_of d ''title'' of
             None \<Rightarrow> Inl KeyError
           | Some t \<Rightarrow>
               if \<not> hashable t then Inl TypeError
               else
                 (case map_of links_dict t of
                    Some (l # ls) \<Rightarrow> Inr (JObject (dict_set d ''url'' l))
                  | _ \<Rightarrow>
                      (case map_of d ''source'' of
                         None \<Rightarrow> Inl KeyError
                       | Some s \<Rightarrow>
                           Inr (JObject (dict_set d ''url''
                             (JString (''https://www.google.com/search?q='' @ py_str w t
                                       @ ''+'' @ py_str w s)))))))
      | _ \<Rightarrow> Inl TypeError)"

fun set_item_urls :: "world \<Rightarrow> (json \<times> json list) list \<Rightarrow> json list \<Rightarrow> exn + json list" where
  "set_item_urls w links_dict [] = Inr []"
| "set_item_urls w links_dict (item # items) =
     (case set_item_url w links_dict item of
        Inl e \<Rightarrow> Inl e
      | Inr item' \<Rightarrow>
          (case set_item_urls w links_dict items of
             Inl e \<Rightarrow> Inl e
           | Inr items' \<Rightarrow> Inr (item' # items')))"

definition send_recommendation_results :: "world \<Rightarrow> json list \<Rightarrow> event list \<times> exn option" where
  "send_recommendation_results w results_data =
     (case generate_links_by_title_parallel w results_data of
        Inl e \<Rightarrow> ([Parsing_complete (length results_data)], Some e)
      | Inr links_dict \<Rightarrow>
          (case set_item_urls w links_dict results_data of
             Inl e \<Rightarrow> ([Parsing_complete (length results_data)], Some e)
           | Inr validated_data \<Rightarrow>
               (case normalize w
                       (if validated_data = [] \<and> results_data \<noteq> [] then get_mock_results
                        else validated_data) of
                  Inl e \<Rightarrow> ([Parsing_complete (length results_data)], Some e)
                | Inr results \<Rightarrow>
                    ([Parsing_complete (length results_data), Results results], None))))"

text \<open>
  The single extraction after the loop: the events it yields and the value of
  \<open>results_sent\<close> after it. Whatever is raised inside is caught by one of the two
  clauses of the inner \<open>try\<close>, and both leave \<open>results_sent\<close> false.
\<close>

definition parse_accumulated :: "world \<Rightarrow> string \<Rightarrow> event list \<times> bool" where
  "parse_accumulated w accumulated_content =
     (case extract_results accumulated_content of
        None \<Rightarrow> ([], False)
      | Some (Inl e) \<Rightarrow> ([], False)
      | Some (Inr (JArray results_data)) \<Rightarrow>
          (case send_recommendation_results w results_data of
             (evs, None) \<Rightarrow> (evs, True)
           | (evs, Some e) \<Rightarrow> (evs, False))
      | Some (Inr other) \<Rightarrow> ([], False))"

text \<open>
  What follows the loop inside the inner \<open>try\<close>. It starts by printing
  \<open>content_text\<close>, a variable that only the loop body assigns: when the stream had
  no chunk at all, that raises \<open>UnboundLocalError\<close>, which the inner handler
  catches like any other exception.
\<close>

definition after_loop :: "world \<Rightarrow> chunk list \<Rightarrow> string \<Rightarrow> event list \<times> bool" where
  "after_loop w cs accumulated_content =
     (if cs = [] then ([], False) else parse_accumulated w accumulated_content)"

definition generate_stream_attempt :: "world \<Rightarrow> string \<Rightarrow> model_stream \<Rightarrow> event list" where
  "generate_stream_attempt w api_key stream =
     Thought ''Analyzing current AI trends and developments to provide you with the most relevant recommendations...''
     # (case consume_chunks [] (get_recommendations_streaming api_key stream) of
          (thoughts, accumulated_content) \<Rightarrow>
            (case after_loop w (get_recommendations_streaming api_key stream)
                    accumulated_content of
               (evs, results_sent) \<Rightarrow> thoughts @ evs @ finish_stream w results_sent))"

section \<open>The chat session registry\<close>

text \<open>
  \<^verbatim>\<open>active_chats\<close> maps a chat id to a chat session of the model's client. Of a
  session the program reads only its history: a list of messages, or an exception
  when \<^verbatim>\<open>get_history\<close> raises. A message has a role and parts (\<open>None\<close> when the
  attribute is missing); the text of a part is missing, \<open>None\<close> or a string.
\<close>

datatype text_attr = No_text | Null_text | Text string

record message =
  role :: "string option"
  parts :: "text_attr list option"

record chat_session =
  get_history :: "exn + message list"

type_synonym registry = "string \<rightharpoonup> chat_session"

text \<open>
  \<^verbatim>\<open>''.join([part.text for part in message.parts if hasattr(part, 'text')])\<close>:
  joining raises \<open>TypeError\<close> when one of the texts is \<open>None\<close>.
\<close>

fun join_texts :: "text_attr list \<Rightarrow> exn + string" where
  "join_texts [] = Inr []"
| "join_texts (No_text # ps) = join_texts ps"
| "join_texts (Null_text # ps) = Inl TypeError"
| "join_texts (Text s # ps) =
     (case join_texts ps of Inl e \<Rightarrow> Inl e | Inr rest \<Rightarrow> Inr (s @ rest))"

definition startswith :: "string \<Rightarrow> string \<Rightarrow> bool" where
  "startswith s p = (strip_prefix p s \<noteq> None)"

text \<open>The entry of the formatted history that one message gives, if it gives one.\<close>

definition format_message :: "message \<Rightarrow> exn + (string \<times> string) option" where
  "format_message m =
     (case (role m, parts m) of
        (Some r, Some ps) \<Rightarrow>
          if r = ''user'' \<or> r = ''model'' then
            (case (if ps = [] then Inr [] else join_texts ps) of
               Inl e \<Rightarrow> Inl e
             | Inr content \<Rightarrow>
                 if strip content \<noteq> []
                    \<and> \<not> startswith content ''Please act according to these instructions''
                    \<and> \<not> startswith content ''We are discussing this specific article:''
                 then Inr (Some (if r = ''model'' then ''assistant'' else r, strip content))
                 else Inr None)
          else Inr None
      | _ \<Rightarrow> Inr None)"

fun format_history :: "message list \<Rightarrow> exn + (string \<times> string) list" where
  "format_history [] = Inr []"
| "format_history (m # ms) =
     (case format_message m of
        Inl e \<Rightarrow> Inl e
      | Inr entry \<Rightarrow>
          (case format_history ms of
             Inl e \<Rightarrow> Inl e
           | Inr entries \<Rightarrow>
               Inr ((case entry of None \<Rightarrow> [] | Some x \<Rightarrow> [x]) @ entries)))"

text \<open>
  \<^verbatim>\<open>get_chat_history\<close>: the formatted history of a registered session, and the
  empty list for an unknown id or when anything raises.
\<close>

definition get_chat_history :: "registry \<Rightarrow> string \<Rightarrow> (string \<times> string) list" where
  "get_chat_history active_chats chat_id =
     (case active_chats chat_id of
        None \<Rightarrow> []
      | Some chat \<Rightarrow>
          (case get_history chat of
             Inl e \<Rightarrow> []
           | Inr history \<Rightarrow>
               (case format_history history of
                  Inl e \<Rightarrow> []
                | Inr formatted_history \<Rightarrow> formatted_history)))"

text \<open>\<^verbatim>\<open>clear_chat_session\<close> and \<^verbatim>\<open>clear_all_chat_sessions\<close>.\<close>

definition clear_chat_session :: "registry \<Rightarrow> string \<Rightarrow> registry" where
  "clear_chat_session active_chats chat_id =
     (case active_chats chat_id of
        None \<Rightarrow> active_chats
      | Some chat \<Rightarrow> active_chats(chat_id := None))"

definition clear_all_chat_sessions :: "registry \<Rightarrow> registry" where
  "clear_all_chat_sessions active_chats = Map.empty"

section \<open>Notions used to state the claims\<close>

text \<open>A chunk that carries only flat text, and a chunk that carries only a thought.\<close>

definition text_chunk :: "string \<Rightarrow> chunk" where
  "text_chunk t = \<lparr>candidates = [], chunk_text = Some t\<rparr>"

text \<open>
  An event that is neither a \<open>results\<close> event nor a terminal one.
\<close>

fun progress :: "event \<Rightarrow> bool" where
  "progress (Thought t) = True"
| "progress (Parsing_complete n) = True"
| "progress (Results r) = False"
| "progress Complete = False"
| "progress (Error e) = False"

text \<open>The thoughts and the answer text of a whole sequence of chunks.\<close>

definition all_thoughts :: "chunk list \<Rightarrow> event list" where
  "all_thoughts cs = concat (map (\<lambda>ch. thought_events (fst (classify ch))) cs)"

definition all_content :: "chunk list \<Rightarrow> string" where
  "all_content cs =
     concat (map (\<lambda>ch. case snd (classify ch) of None \<Rightarrow> [] | Some c \<Rightarrow> c) cs)"

text \<open>
  The status with which the general check's request completes: that of the HEAD
  request, or of the GET request when the HEAD request raises.
\<close>

definition general_status :: "world \<Rightarrow> string \<Rightarrow> nat option" where
  "general_status w u =
     (case http_head w validator_agent u of
        Reply st ct body \<Rightarrow> Some st
      | _ \<Rightarrow>
          (case http_get w validator_agent u of
             Reply st ct body \<Rightarrow> Some st
           | _ \<Rightarrow> None))"

text \<open>
  A URL that \<^verbatim>\<open>validate_url\<close> hands to the general check: it has a scheme and a
  network location, and it is neither a YouTube video nor a podcast.
\<close>

definition general_url :: "world \<Rightarrow> string \<Rightarrow> json \<Rightarrow> bool" where
  "general_url w u content_type =
     (case urlparse w u of
        None \<Rightarrow> False
      | Some (scheme, netloc) \<Rightarrow>
          scheme \<noteq> [] \<and> netloc \<noteq> []
          \<and> (content_type = JString ''video''
                 \<and> (contains ''youtube.com'' netloc \<or> contains ''youtu.be'' netloc)) = False
          \<and> (content_type = JString ''podcast'') = False)"

text \<open>
  The links that the resolver stores for an item: the URIs of the grounding chunks,
  or the fallback link when the lookup finds none or raises.
\<close>

definition resolved_links :: "world \<Rightarrow> content_item \<Rightarrow> json list" where
  "resolved_links w c =
     (case url_lookup w (title c) (source c) of
        Grounding (u # us) \<Rightarrow> u # us
      | _ \<Rightarrow> [search_link w (title c) (source c)])"


text \<open>
  Two worlds for the examples. In \<open>offline_world\<close> every request and every lookup
  fails; in \<open>online_world\<close> every request is answered with status 403 and every
  lookup finds one page. Both split the empty URL into an empty scheme and an empty
  network location, as \<^verbatim>\<open>urlparse\<close> does.
\<close>

definition offline_world :: world where
  "offline_world =
     \<lparr>urlparse = (\<lambda>u. if u = [] then Some ([], []) else Some (''https'', ''example.org'')),
      http_head = (\<lambda>agent u. Request_failed),
      http_get = (\<lambda>agent u. Timed_out),
      deadline_missed = (\<lambda>items. False),
      url_lookup = (\<lambda>t s. Lookup_raises ValueError),
      str_of = (\<lambda>v. ''None''),
      now = ''2025-01-01T00:00:00''\<rparr>"

definition online_world :: world where
  "online_world =
     \<lparr>urlparse = (\<lambda>u. if u = [] then Some ([], []) else Some (''https'', ''example.org'')),
      http_head = (\<lambda>agent u. Reply 403 ''text/html'' []),
      http_get = (\<lambda>agent u. Reply 200 ''text/html'' []),
      deadline_missed = (\<lambda>items. False),
      url_lookup = (\<lambda>t s. Grounding [JString ''https://example.org/page'']),
      str_of = (\<lambda>v. ''None''),
      now = ''2025-01-01T00:00:00''\<rparr>"

text \<open>A registry with two sessions.\<close>

definition example_registry :: registry where
  "example_registry =
     [''article_a'' \<mapsto>
        \<lparr>get_history = Inr [\<lparr>role = Some ''user'', parts = Some [Text ''What happened?'']\<rparr>]\<rparr>,
      ''article_b'' \<mapsto>
        \<lparr>get_history = Inr [\<lparr>role = Some ''model'', parts = Some [Text '' It shipped. '']\<rparr>]\<rparr>]"

text \<open>An item whose URL is answered with 403 in \<open>online_world\<close>.\<close>

definition forbidden_item :: "(string \<times> json) list" where
  "forbidden_item =
     [(''title'', JString ''Members only''), (''type'', JString ''article''),
      (''url'', JString ''https://example.org/members'')]"

text \<open>An item as the model describes it.\<close>

definition paper_item :: json where
  "paper_item = JObject
     [(''title'', JString ''Scaling Laws''), (''type'', JString ''article''),
      (''description'', JString ''On scaling.''), (''source'', JString ''Wired''),
      (''relevance'', JString ''Core''), (''url'', JString ''https://example.org/paper'')]"

text \<open>An answer text that denotes the list with this one item.\<close>

definition paper_text :: string where
  "paper_text = ''[{\"title\": \"Scaling Laws\", \"type\": \"article\", \"description\": \"On scaling.\", \"source\": \"Wired\", \"relevance\": \"Core\", \"url\": \"https://example.org/paper\"}]''"

text \<open>
  The content item made from the mock results, and the dictionary that the text of the
  mock streaming response denotes.
\<close>

definition mock_content_item :: "world \<Rightarrow> content_item" where
  "mock_content_item w =
     \<lparr>title = JString ''Attention Is All You Need - Transformer Paper'',
      type = JString ''academic'',
      description = JString ''The groundbreaking paper that introduced the Transformer architecture, revolutionizing natural language processing.'',
      source = JString ''arXiv'',
      relevance = JString ''Foundational research in modern AI'',
      url = JString ''https://arxiv.org/abs/1706.03762'',
      timestamp = JString (now w),
      validation = JNull\<rparr>"

definition mock_stream_item :: "(string \<times> json) list" where
  "mock_stream_item =
     [(''title'', JString ''Attention Is All You Need - Transformer Paper''),
      (''type'', JString ''academic''),
      (''description'', JString ''The groundbreaking paper that introduced the Transformer architecture, revolutionizing natural language processing.''),
      (''source'', JString ''arXiv''),
      (''relevance'', JString ''Foundational research in modern AI'')]"

section \<open>Lemmas on the text functions\<close>

lemma collapse_ws_head:
  "collapse_ws (dropWhile is_space cs) = d # ds \<Longrightarrow> \<not> is_space d"
proof (cases "dropWhile is_space cs")
  case Nil
  assume a: "collapse_ws (dropWhile is_space cs) = d # ds"
  from a[unfolded Nil] show ?thesis by simp
next
  case (Cons e es)
  assume a: "collapse_ws (dropWhile is_space cs) = d # ds"
  from Cons have e: "\<not> is_space e" using hd_dropWhile[of is_space cs] by simp
  from a[unfolded Cons] e show ?thesis by simp
qed

lemma spaced_collapse_ws: "spaced (collapse_ws s)"
proof (induction s rule: collapse_ws.induct)
  case 1
  show ?case by simp
next
  case (2 c cs)
  show ?case
  proof (cases "is_space c")
    case True
    with 2 have "spaced (collapse_ws (dropWhile is_space cs))" by simp
    with True show ?thesis
      by (auto split: list.splits dest: collapse_ws_head)
  next
    case False
    with 2 show ?thesis by simp
  qed
qed

lemma collapse_ws_spaced: "spaced s \<Longrightarrow> collapse_ws s = s"
proof (induction s rule: collapse_ws.induct)
  case 1
  show ?case by simp
next
  case (2 c cs)
  show ?case
  proof (cases "is_space c")
    case True
    with "2.prems" have c: "c = CHR '' ''" and cs: "spaced cs"
      and h: "cs = [] \<or> \<not> is_space (hd cs)"
      by (auto split: list.splits)
    from h have d: "dropWhile is_space cs = cs" by (cases cs) auto
    with "2.IH"(1)[OF True] cs have "collapse_ws cs = cs" by simp
    with True c d show ?thesis by simp
  next
    case False
    with 2 show ?thesis by simp
  qed
qed

lemma spaced_dropWhile: "spaced s \<Longrightarrow> spaced (dropWhile P s)"
  by (induction s) auto

lemma spaced_prefix: "spaced (xs @ ys) \<Longrightarrow> spaced xs"
proof (induction xs)
  case Nil
  show ?case by simp
next
  case (Cons x xs)
  then show ?case by (cases xs) (auto split: list.splits)
qed

lemma rstrip_prefix: "rev (dropWhile P (rev s)) @ rev (takeWhile P (rev s)) = s"
proof -
  have "rev (takeWhile P (rev s) @ dropWhile P (rev s)) = s" by simp
  then show ?thesis by (simp only: rev_append)
qed

lemma spaced_strip: "spaced s \<Longrightarrow> spaced (strip s)"
proof -
  assume "spaced s"
  then have "spaced (dropWhile is_space s)" by (rule spaced_dropWhile)
  then have "spaced (rev (dropWhile is_space (rev (dropWhile is_space s)))
              @ rev (takeWhile is_space (rev (dropWhile is_space s))))"
    by (simp only: rstrip_prefix)
  then show ?thesis unfolding strip_def by (rule spaced_prefix)
qed

lemma strip_strip: "strip (strip s) = strip s"
proof -
  define u where "u = dropWhile is_space s"
  define v where "v = dropWhile is_space (rev u)"
  have t: "strip s = rev v" by (simp add: strip_def u_def v_def)
  have u: "u = rev v @ rev (takeWhile is_space (rev u))"
    unfolding v_def by (simp only: rstrip_prefix)
  have hu: "u = [] \<or> \<not> is_space (hd u)"
    unfolding u_def using hd_dropWhile[of is_space s] by blast
  have hv: "v = [] \<or> \<not> is_space (hd v)"
    unfolding v_def using hd_dropWhile[of is_space "rev u"] by blast
  have 1: "dropWhile is_space (rev v) = rev v"
  proof (cases "rev v")
    case Nil
    then show ?thesis by simp
  next
    case (Cons a as)
    with u have "hd u = a" and "u \<noteq> []" by (metis append_Cons list.sel(1), metis Nil_is_append_conv list.distinct(1))
    with hu have "\<not> is_space a" by simp
    with Cons show ?thesis by simp
  qed
  have 2: "dropWhile is_space v = v"
    using hv by (cases v) auto
  show ?thesis unfolding t by (simp add: strip_def 1 2)
qed

lemma length_strip: "length (strip s) \<le> length s"
proof -
  have "length (strip s) \<le> length (dropWhile is_space s)"
    unfolding strip_def using length_dropWhile_le[of is_space "rev (dropWhile is_space s)"] by simp
  also have "\<dots> \<le> length s" by (rule length_dropWhile_le)
  finally show ?thesis .
qed

lemma length_collapse_ws: "length (collapse_ws s) \<le> length s"
proof (induction s rule: collapse_ws.induct)
  case 1
  show ?case by simp
next
  case (2 c cs)
  show ?case
  proof (cases "is_space c")
    case True
    with 2 have "length (collapse_ws (dropWhile is_space cs)) \<le> length (dropWhile is_space cs)" by simp
    also have "\<dots> \<le> length cs" by (rule length_dropWhile_le)
    finally show ?thesis using True by simp
  next
    case False
    with 2 show ?thesis by simp
  qed
qed

lemma length_re_sub_delete: "length (re_sub_delete p s) \<le> length s"
proof (induction p s rule: re_sub_delete.induct)
  case (1 p)
  show ?case by simp
next
  case (2 p c cs)
  show ?case
  proof (cases "match_at p (c # cs)")
    case None
    with 2 show ?thesis by simp
  next
    case (Some r)
    with 2 have "length (re_sub_delete p r) \<le> length r" by simp
    with match_at_shorter[OF Some] Some show ?thesis by simp
  qed
qed

lemma re_sub_delete_changed: "re_sub_delete p s \<noteq> s \<Longrightarrow> length (re_sub_delete p s) < length s"
proof (induction p s rule: re_sub_delete.induct)
  case (1 p)
  then show ?case by simp
next
  case (2 p c cs)
  show ?case
  proof (cases "match_at p (c # cs)")
    case None
    with 2 show ?thesis by simp
  next
    case (Some r)
    have "length (re_sub_delete p r) \<le> length r" by (rule length_re_sub_delete)
    with match_at_shorter[OF Some] Some show ?thesis by simp
  qed
qed


lemma re_sub_delete_fixed_iff: "re_sub_delete p s = s \<longleftrightarrow> \<not> has_match p s"
proof (induction s)
  case Nil
  show ?case by simp
next
  case (Cons c cs)
  show ?case
  proof (cases "match_at p (c # cs)")
    case None
    with Cons show ?thesis by simp
  next
    case (Some r)
    have "length (re_sub_delete p r) \<le> length r" by (rule length_re_sub_delete)
    with match_at_shorter[OF Some] have "length (re_sub_delete p r) \<noteq> length (c # cs)" by simp
    then have "re_sub_delete p r \<noteq> c # cs" by auto
    with Some show ?thesis by simp
  qed
qed

lemma normalise_ws_fixed: "strip (collapse_ws (strip (collapse_ws s))) = strip (collapse_ws s)"
proof -
  have "spaced (strip (collapse_ws s))" by (rule spaced_strip[OF spaced_collapse_ws])
  then have "collapse_ws (strip (collapse_ws s)) = strip (collapse_ws s)"
    by (rule collapse_ws_spaced)
  then show ?thesis by (simp add: strip_strip)
qed

lemma clean_twice_when_free:
  assumes g: "\<not> has_match General_marker (clean_metadata_from_text t)"
    and s: "\<not> has_match Simple_marker (clean_metadata_from_text t)"
  shows "clean_metadata_from_text (clean_metadata_from_text t) = clean_metadata_from_text t"
proof (cases "t = []")
  case True
  then show ?thesis by (simp add: clean_metadata_from_text_def)
next
  case False
  define z where "z = re_sub_delete Simple_marker (re_sub_delete General_marker t)"
  have y: "clean_metadata_from_text t = strip (collapse_ws z)"
    using False by (simp add: clean_metadata_from_text_def z_def)
  from g s have "re_sub_delete General_marker (strip (collapse_ws z)) = strip (collapse_ws z)"
    and "re_sub_delete Simple_marker (strip (collapse_ws z)) = strip (collapse_ws z)"
    unfolding y by (simp_all add: re_sub_delete_fixed_iff)
  then have "clean_metadata_from_text (strip (collapse_ws z)) =
      (if strip (collapse_ws z) = [] then [] else strip (collapse_ws (strip (collapse_ws z))))"
    by (simp add: clean_metadata_from_text_def)
  also have "\<dots> = strip (collapse_ws z)"
    by (simp add: normalise_ws_fixed)
  finally show ?thesis unfolding y .
qed

lemma clean_shrinks_when_marked:
  assumes "has_match General_marker y \<or> has_match Simple_marker y"
  shows "length (clean_metadata_from_text y) < length y"
proof -
  from assms have ne: "y \<noteq> []" by auto
  define g where "g = re_sub_delete General_marker y"
  have gl: "length g \<le> length y" unfolding g_def by (rule length_re_sub_delete)
  have "length (re_sub_delete Simple_marker g) < length y"
  proof (cases "has_match General_marker y")
    case True
    then have "g \<noteq> y" unfolding g_def by (simp add: re_sub_delete_fixed_iff)
    then have "length g < length y" unfolding g_def by (rule re_sub_delete_changed)
    with length_re_sub_delete[of Simple_marker g] show ?thesis by simp
  next
    case False
    then have gy: "g = y" unfolding g_def by (simp add: re_sub_delete_fixed_iff)
    from False assms have "has_match Simple_marker y" by simp
    then have "re_sub_delete Simple_marker y \<noteq> y" by (simp add: re_sub_delete_fixed_iff)
    then show ?thesis unfolding gy by (rule re_sub_delete_changed)
  qed
  moreover have "length (strip (collapse_ws (re_sub_delete Simple_marker g)))
      \<le> length (re_sub_delete Simple_marker g)"
    by (rule order_trans[OF length_strip length_collapse_ws])
  ultimately show ?thesis using ne by (simp add: clean_metadata_from_text_def g_def)
qed

section \<open>Lemmas on the decoder\<close>

lemma length_skip_ws: "length (skip_ws s) \<le> length s"
  by (simp add: skip_ws_def length_dropWhile_le)

lemma cons_result_Inr:
  "cons_result c res = Inr (str, r) \<Longrightarrow> \<exists>str'. res = Inr (str', r)"
  by (auto simp: cons_result_def split: sum.splits)

lemma cons_result_Inl: "cons_result c res = Inl e \<Longrightarrow> res = Inl e"
  by (auto simp: cons_result_def split: sum.splits)

lemma scanstring_shorter: "scanstring s = Inr (str, r) \<Longrightarrow> length r < length s"
proof (induction "length s" arbitrary: s str rule: less_induct)
  case less
  show ?case
  proof (cases s)
    case Nil
    with less.prems show ?thesis by simp
  next
    case (Cons c cs)
    show ?thesis
    proof (cases "c = CHR 0x22")
      case True
      with less.prems Cons show ?thesis by simp
    next
      case nq: False
      show ?thesis
      proof (cases "c = CHR 0x5C")
        case False
        with nq less.prems Cons obtain str' where "scanstring cs = Inr (str', r)"
          by (auto split: if_splits dest: cons_result_Inr)
        with less.hyps[of cs str'] Cons show ?thesis by simp
      next
        case bs: True
        show ?thesis
        proof (cases cs)
          case Nil
          with nq bs less.prems Cons show ?thesis by simp
        next
          case cs: (Cons e es)
          show ?thesis
          proof (cases "e = CHR ''u''")
            case False
            with nq bs Cons cs less.prems obtain str' where "scanstring es = Inr (str', r)"
              by (auto split: option.splits dest: cons_result_Inr)
            with less.hyps[of es str'] Cons cs show ?thesis by simp
          next
            case True
            with nq bs Cons cs less.prems obtain h1 h2 h3 h4 r' str'
              where es: "es = h1 # h2 # h3 # h4 # r'" and "scanstring r' = Inr (str', r)"
              by (auto split: list.splits option.splits if_splits dest: cons_result_Inr)
            with less.hyps[of r' str'] Cons cs show ?thesis by simp
          qed
        qed
      qed
    qed
  qed
qed

lemma scanstring_no_recursion_error: "scanstring s = Inl e \<Longrightarrow> e \<noteq> RecursionError"
proof (induction "length s" arbitrary: s rule: less_induct)
  case less
  show ?case
  proof (cases s)
    case Nil
    with less.prems show ?thesis by simp
  next
    case (Cons c cs)
    show ?thesis
    proof (cases "c = CHR 0x22")
      case True
      with less.prems Cons show ?thesis by simp
    next
      case nq: False
      show ?thesis
      proof (cases "c = CHR 0x5C")
        case False
        with nq less.prems Cons have "e = JSONDecodeError \<or> scanstring cs = Inl e"
          by (auto split: if_splits dest: cons_result_Inl)
        with less.hyps[of cs] Cons show ?thesis by auto
      next
        case bs: True
        show ?thesis
        proof (cases cs)
          case Nil
          with nq bs less.prems Cons show ?thesis by auto
        next
          case cs: (Cons x es)
          show ?thesis
          proof (cases "x = CHR ''u''")
            case False
            with nq bs Cons cs less.prems have "e = JSONDecodeError \<or> scanstring es = Inl e"
              by (auto split: option.splits dest: cons_result_Inl)
            with less.hyps[of es] Cons cs show ?thesis by auto
          next
            case True
            with nq bs Cons cs less.prems
            have "e = JSONDecodeError \<or> e = Out_of_model
                \<or> (\<exists>h1 h2 h3 h4 r'. es = h1 # h2 # h3 # h4 # r' \<and> scanstring r' = Inl e)"
              by (auto split: list.splits option.splits if_splits dest: cons_result_Inl)
            then show ?thesis
            proof (elim disjE exE conjE)
              fix h1 h2 h3 h4 r'
              assume "es = h1 # h2 # h3 # h4 # r'" and "scanstring r' = Inl e"
              with less.hyps[of r'] Cons cs show ?thesis by simp
            qed simp_all
          qed
        qed
      qed
    qed
  qed
qed

lemma scan_literal_shorter: "scan_literal s = Some (v, r) \<Longrightarrow> length r < length s"
  by (auto simp: scan_literal_def split: option.splits dest!: strip_prefix_length)

lemma scan_int_part_shorter: "scan_int_part s = Some (ip, r) \<Longrightarrow> length r < length s"
proof (cases s)
  case Nil
  assume "scan_int_part s = Some (ip, r)"
  with Nil show ?thesis by (simp add: scan_int_part_def)
next
  case (Cons d t)
  assume "scan_int_part s = Some (ip, r)"
  with Cons have "r = t \<or> r = dropWhile is_digit t"
    by (auto simp: scan_int_part_def split: if_splits)
  with length_dropWhile_le[of is_digit t] Cons show ?thesis by auto
qed

lemma scan_frac_le: "scan_frac s = (fp, r) \<Longrightarrow> length r \<le> length s"
proof (cases "strip_prefix ''.'' s")
  case None
  assume "scan_frac s = (fp, r)"
  with None show ?thesis by (simp add: scan_frac_def)
next
  case (Some f)
  assume a: "scan_frac s = (fp, r)"
  from strip_prefix_length[OF Some] have "length f \<le> length s" by simp
  moreover have "length (dropWhile is_digit f) \<le> length f" by (rule length_dropWhile_le)
  moreover from a Some have "r = s \<or> r = dropWhile is_digit f"
    by (auto simp: scan_frac_def split: if_splits)
  ultimately show ?thesis by auto
qed

lemma scan_exp_le: "scan_exp s = (ex, r) \<Longrightarrow> length r \<le> length s"
proof (cases s)
  case Nil
  assume "scan_exp s = (ex, r)"
  with Nil show ?thesis by (simp add: scan_exp_def)
next
  case (Cons c x)
  assume a: "scan_exp s = (ex, r)"
  define y where "y = (case strip_prefix ''-'' x of
                      Some y \<Rightarrow> y
                    | None \<Rightarrow>
                        (case strip_prefix ''+'' x of Some y \<Rightarrow> y | None \<Rightarrow> x))"
  have y: "length y \<le> length x"
    unfolding y_def by (auto split: option.splits dest: strip_prefix_length)
  from a Cons have "r = s \<or> r = dropWhile is_digit y"
    unfolding y_def by (auto simp: scan_exp_def Let_def split: if_splits option.splits)
  with y length_dropWhile_le[of is_digit y] Cons show ?thesis by auto
qed

lemma scan_number_shorter: "scan_number s = Some (v, r) \<Longrightarrow> length r < length s"
proof -
  assume a: "scan_number s = Some (v, r)"
  define s1 where "s1 = (case strip_prefix ''-'' s of Some r \<Rightarrow> r | None \<Rightarrow> s)"
  have s1: "length s1 \<le> length s"
    unfolding s1_def by (auto split: option.splits dest: strip_prefix_length)
  from a obtain ip r1 where ip: "scan_int_part s1 = Some (ip, r1)"
    unfolding s1_def by (auto simp: scan_number_def Let_def split: option.splits)
  obtain fp r2 where fp: "scan_frac r1 = (fp, r2)" by (cases "scan_frac r1")
  obtain ex r3 where ex: "scan_exp r2 = (ex, r3)" by (cases "scan_exp r2")
  from a ip fp ex have "r = r3"
    unfolding s1_def by (auto simp: scan_number_def Let_def split: if_splits option.splits)
  with scan_int_part_shorter[OF ip] scan_frac_le[OF fp] scan_exp_le[OF ex] s1
  show ?thesis by simp
qed

lemma scan_once_Suc_Inr:
  assumes "scan_once (Suc n) s = Inr (v, r)"
  shows "(\<exists>cs str. s = CHR 0x22 # cs \<and> scanstring cs = Inr (str, r))
   \<or> (\<exists>cs. s = CHR ''{'' # cs
          \<and> (strip_prefix ''}'' (skip_ws cs) = Some r
              \<or> (\<exists>r0. strip_prefix [CHR 0x22] (skip_ws cs) = Some r0
                    \<and> parse_object n [] r0 = Inr (v, r))))
   \<or> (\<exists>cs. s = CHR ''['' # cs
          \<and> (strip_prefix '']'' (skip_ws cs) = Some r
              \<or> parse_array n [] (skip_ws cs) = Inr (v, r)))
   \<or> scan_literal s = Some (v, r) \<or> scan_number s = Some (v, r)"
proof (cases s)
  case Nil
  with assms show ?thesis by simp
next
  case (Cons c cs)
  consider "c = CHR 0x22" | "c \<noteq> CHR 0x22" "c = CHR ''{''"
    | "c \<noteq> CHR 0x22" "c \<noteq> CHR ''{''" "c = CHR ''[''"
    | "c \<noteq> CHR 0x22" "c \<noteq> CHR ''{''" "c \<noteq> CHR ''[''"
    by blast
  then show ?thesis
  proof cases
    case 1
    with assms Cons show ?thesis by (auto split: sum.splits)
  next
    case 2
    with assms Cons show ?thesis by (auto split: option.splits)
  next
    case 3
    with assms Cons show ?thesis by (auto split: option.splits)
  next
    case 4
    with assms Cons show ?thesis by (auto split: option.splits)
  qed
qed

lemma scan_once_Suc_RecursionError:
  assumes "scan_once (Suc n) s = Inl RecursionError"
  shows "(\<exists>cs r0. s = CHR ''{'' # cs \<and> strip_prefix [CHR 0x22] (skip_ws cs) = Some r0
            \<and> parse_object n [] r0 = Inl RecursionError)
   \<or> (\<exists>cs. s = CHR ''['' # cs \<and> parse_array n [] (skip_ws cs) = Inl RecursionError)"
proof (cases s)
  case Nil
  with assms show ?thesis by simp
next
  case (Cons c cs)
  consider "c = CHR 0x22" | "c \<noteq> CHR 0x22" "c = CHR ''{''"
    | "c \<noteq> CHR 0x22" "c \<noteq> CHR ''{''" "c = CHR ''[''"
    | "c \<noteq> CHR 0x22" "c \<noteq> CHR ''{''" "c \<noteq> CHR ''[''"
    by blast
  then show ?thesis
  proof cases
    case 1
    with assms Cons show ?thesis
      by (auto split: sum.splits dest: scanstring_no_recursion_error)
  next
    case 2
    with assms Cons show ?thesis by (auto split: option.splits)
  next
    case 3
    with assms Cons show ?thesis by (auto split: option.splits)
  next
    case 4
    with assms Cons show ?thesis by (auto split: option.splits)
  qed
qed

lemma parse_array_Suc_Inr:
  assumes "parse_array (Suc n) acc s = Inr (v, r)"
  shows "\<exists>v' r' c r''. scan_once n s = Inr (v', r') \<and> skip_ws r' = c # r''
           \<and> (r = r'' \<or> parse_array n (acc @ [v']) (skip_ws r'') = Inr (v, r))"
proof -
  from assms obtain v' r' where 1: "scan_once n s = Inr (v', r')"
    by (auto split: sum.splits)
  with assms obtain c r'' where 2: "skip_ws r' = c # r''"
    by (cases "skip_ws r'") auto
  from assms 1 2 have "r = r'' \<or> parse_array n (acc @ [v']) (skip_ws r'') = Inr (v, r)"
    by (auto split: if_splits)
  with 1 2 show ?thesis by blast
qed

lemma parse_array_Suc_RecursionError:
  assumes "parse_array (Suc n) acc s = Inl RecursionError"
  shows "scan_once n s = Inl RecursionError
   \<or> (\<exists>v' r' c r''. scan_once n s = Inr (v', r') \<and> skip_ws r' = c # r''
           \<and> parse_array n (acc @ [v']) (skip_ws r'') = Inl RecursionError)"
proof (cases "scan_once n s")
  case (Inl e)
  with assms show ?thesis by simp
next
  case (Inr p)
  obtain v' r' where p: "p = (v', r')" by (cases p)
  with assms Inr obtain c r'' where 2: "skip_ws r' = c # r''"
    by (cases "skip_ws r'") auto
  from assms Inr p 2 have "parse_array n (acc @ [v']) (skip_ws r'') = Inl RecursionError"
    by (auto split: if_splits)
  with Inr p 2 show ?thesis by blast
qed

lemma parse_object_Suc_Inr:
  assumes "parse_object (Suc n) acc s = Inr (v, r)"
  shows "\<exists>key r0 r1 v' r2 c r3. scanstring s = Inr (key, r0)
           \<and> strip_prefix '':'' (skip_ws r0) = Some r1
           \<and> scan_once n (skip_ws r1) = Inr (v', r2) \<and> skip_ws r2 = c # r3
           \<and> (r = r3 \<or> (\<exists>r4. strip_prefix [CHR 0x22] (skip_ws r3) = Some r4
                  \<and> parse_object n (dict_set acc key v') r4 = Inr (v, r)))"
proof -
  from assms obtain key r0 where 1: "scanstring s = Inr (key, r0)"
    by (auto split: sum.splits)
  with assms obtain r1 where 2: "strip_prefix '':'' (skip_ws r0) = Some r1"
    by (auto split: option.splits)
  with assms 1 obtain v' r2 where 3: "scan_once n (skip_ws r1) = Inr (v', r2)"
    by (auto split: sum.splits)
  with assms 1 2 obtain c r3 where 4: "skip_ws r2 = c # r3"
    by (cases "skip_ws r2") auto
  from assms 1 2 3 4
  have "r = r3 \<or> (\<exists>r4. strip_prefix [CHR 0x22] (skip_ws r3) = Some r4
                  \<and> parse_object n (dict_set acc key v') r4 = Inr (v, r))"
    by (auto split: if_splits option.splits)
  with 1 2 3 4 show ?thesis by blast
qed

lemma parse_object_Suc_RecursionError:
  assumes "parse_object (Suc n) acc s = Inl RecursionError"
  shows "\<exists>key r0 r1. scanstring s = Inr (key, r0)
           \<and> strip_prefix '':'' (skip_ws r0) = Some r1
           \<and> (scan_once n (skip_ws r1) = Inl RecursionError
               \<or> (\<exists>v' r2 c r3 r4. scan_once n (skip_ws r1) = Inr (v', r2) \<and> skip_ws r2 = c # r3
                     \<and> strip_prefix [CHR 0x22] (skip_ws r3) = Some r4
                     \<and> parse_object n (dict_set acc key v') r4 = Inl RecursionError))"
proof (cases "scanstring s")
  case (Inl e)
  with assms scanstring_no_recursion_error[OF Inl] show ?thesis by simp
next
  case (Inr p)
  obtain key r0 where p: "p = (key, r0)" by (cases p)
  with assms Inr obtain r1 where 2: "strip_prefix '':'' (skip_ws r0) = Some r1"
    by (auto split: option.splits)
  show ?thesis
  proof (cases "scan_once n (skip_ws r1)")
    case (Inl e)
    with assms Inr p 2 show ?thesis by simp
  next
    case v: (Inr q)
    obtain v' r2 where q: "q = (v', r2)" by (cases q)
    with assms Inr p 2 v obtain c r3 where 4: "skip_ws r2 = c # r3"
      by (cases "skip_ws r2") auto
    from assms Inr p 2 v q 4
    have "\<exists>r4. strip_prefix [CHR 0x22] (skip_ws r3) = Some r4
                     \<and> parse_object n (dict_set acc key v') r4 = Inl RecursionError"
      by (auto split: if_splits option.splits)
    with Inr p 2 v q 4 show ?thesis by blast
  qed
qed

lemma strip_prefix_one: "strip_prefix [c] s = Some r \<Longrightarrow> length s = Suc (length r)"
  using strip_prefix_length[of "[c]" s r] by simp

lemma scanner_consumes:
  "(scan_once n s = Inr (v, r) \<longrightarrow> length r < length s)
   \<and> (parse_array n acc s = Inr (v, r) \<longrightarrow> length r < length s)
   \<and> (parse_object n dacc s = Inr (v, r) \<longrightarrow> length r < length s)"
proof (induction n arbitrary: s v r acc dacc)
  case 0
  show ?case by simp
next
  case (Suc n)
  have ih_once: "length r < length s" if "scan_once n s = Inr (v, r)" for s v r
    using Suc[of s v r] that by simp
  have ih_array: "length r < length s" if "parse_array n acc s = Inr (v, r)" for s v r acc
    using Suc[of s v r acc] that by simp
  have ih_object: "length r < length s" if "parse_object n dacc s = Inr (v, r)" for s v r dacc
    using Suc[of s v r _ dacc] that by simp
  have once: "length r < length s" if a: "scan_once (Suc n) s = Inr (v, r)"
  proof -
    from scan_once_Suc_Inr[OF a] show ?thesis
    proof (elim disjE exE conjE)
      fix cs str
      assume "s = CHR 0x22 # cs" and "scanstring cs = Inr (str, r)"
      with scanstring_shorter[of cs str r] show ?thesis by simp
    next
      fix cs
      assume "s = CHR ''{'' # cs" and "strip_prefix ''}'' (skip_ws cs) = Some r"
      with strip_prefix_one[of "CHR ''}''" "skip_ws cs" r] length_skip_ws[of cs]
      show ?thesis by simp
    next
      fix cs r0
      assume "s = CHR ''{'' # cs" and "strip_prefix [CHR 0x22] (skip_ws cs) = Some r0"
        and "parse_object n [] r0 = Inr (v, r)"
      with strip_prefix_one[of "CHR 0x22" "skip_ws cs" r0] length_skip_ws[of cs]
        ih_object[of "[]" r0 v r]
      show ?thesis by simp
    next
      fix cs
      assume "s = CHR ''['' # cs" and "strip_prefix '']'' (skip_ws cs) = Some r"
      with strip_prefix_one[of "CHR '']''" "skip_ws cs" r] length_skip_ws[of cs]
      show ?thesis by simp
    next
      fix cs
      assume "s = CHR ''['' # cs" and "parse_array n [] (skip_ws cs) = Inr (v, r)"
      with ih_array[of "[]" "skip_ws cs" v r] length_skip_ws[of cs]
      show ?thesis by simp
    next
      assume "scan_literal s = Some (v, r)"
      then show ?thesis by (rule scan_literal_shorter)
    next
      assume "scan_number s = Some (v, r)"
      then show ?thesis by (rule scan_number_shorter)
    qed
  qed
  have array: "length r < length s" if a: "parse_array (Suc n) acc s = Inr (v, r)"
  proof -
    from parse_array_Suc_Inr[OF a] obtain v' r' c r''
      where 1: "scan_once n s = Inr (v', r')" and 2: "skip_ws r' = c # r''"
        and 3: "r = r'' \<or> parse_array n (acc @ [v']) (skip_ws r'') = Inr (v, r)"
      by blast
    from ih_once[OF 1] have l1: "length r' < length s" .
    from 2 length_skip_ws[of r'] have l2: "length r'' < length r'" by simp
    from 3 show ?thesis
    proof
      assume "r = r''"
      with l1 l2 show ?thesis by simp
    next
      assume "parse_array n (acc @ [v']) (skip_ws r'') = Inr (v, r)"
      from ih_array[OF this] length_skip_ws[of r''] l1 l2 show ?thesis by simp
    qed
  qed
  have object: "length r < length s" if a: "parse_object (Suc n) dacc s = Inr (v, r)"
  proof -
    from parse_object_Suc_Inr[OF a] obtain key r0 r1 v' r2 c r3
      where 1: "scanstring s = Inr (key, r0)"
        and 2: "strip_prefix '':'' (skip_ws r0) = Some r1"
        and 3: "scan_once n (skip_ws r1) = Inr (v', r2)" and 4: "skip_ws r2 = c # r3"
        and 5: "r = r3 \<or> (\<exists>r4. strip_prefix [CHR 0x22] (skip_ws r3) = Some r4
                  \<and> parse_object n (dict_set dacc key v') r4 = Inr (v, r))"
      by blast
    from scanstring_shorter[OF 1] have l0: "length r0 < length s" .
    from strip_prefix_one[OF 2] length_skip_ws[of r0] have l1: "length r1 < length r0" by simp
    from ih_once[OF 3] length_skip_ws[of r1] have l2: "length r2 < length r1" by simp
    from 4 length_skip_ws[of r2] have l3: "length r3 < length r2" by simp
    from 5 show ?thesis
    proof (elim disjE exE conjE)
      assume "r = r3"
      with l0 l1 l2 l3 show ?thesis by simp
    next
      fix r4
      assume "strip_prefix [CHR 0x22] (skip_ws r3) = Some r4"
        and "parse_object n (dict_set dacc key v') r4 = Inr (v, r)"
      with strip_prefix_one[of "CHR 0x22" "skip_ws r3" r4] length_skip_ws[of r3]
        ih_object[of "dict_set dacc key v'" r4 v r] l0 l1 l2 l3
      show ?thesis by simp
    qed
  qed
  from once array object show ?case by blast
qed

lemma scan_once_consumes: "scan_once n s = Inr (v, r) \<Longrightarrow> length r < length s"
  using scanner_consumes[of n s v r "[]" "[]"] by simp

lemma scanner_fuel:
  "(2 * length s + 1 \<le> n \<longrightarrow> scan_once n s \<noteq> Inl RecursionError)
   \<and> (2 * length s + 2 \<le> n \<longrightarrow> parse_array n acc s \<noteq> Inl RecursionError)
   \<and> (2 * length s + 2 \<le> n \<longrightarrow> parse_object n dacc s \<noteq> Inl RecursionError)"
proof (induction n arbitrary: s acc dacc)
  case 0
  show ?case by simp
next
  case (Suc n)
  have ih_once: "scan_once n s \<noteq> Inl RecursionError" if "2 * length s + 1 \<le> n" for s
    using Suc[of s] that by simp
  have ih_array: "parse_array n acc s \<noteq> Inl RecursionError" if "2 * length s + 2 \<le> n" for s acc
    using Suc[of s acc] that by simp
  have ih_object: "parse_object n dacc s \<noteq> Inl RecursionError"
    if "2 * length s + 2 \<le> n" for s dacc
    using Suc[of s _ dacc] that by simp
  have once: "scan_once (Suc n) s \<noteq> Inl RecursionError" if b: "2 * length s + 1 \<le> Suc n"
  proof
    assume "scan_once (Suc n) s = Inl RecursionError"
    from scan_once_Suc_RecursionError[OF this] show False
    proof (elim disjE exE conjE)
      fix cs r0
      assume "s = CHR ''{'' # cs" and "strip_prefix [CHR 0x22] (skip_ws cs) = Some r0"
        and e: "parse_object n [] r0 = Inl RecursionError"
      with strip_prefix_one[of "CHR 0x22" "skip_ws cs" r0] length_skip_ws[of cs] b
      have "2 * length r0 + 2 \<le> n" by simp
      from ih_object[OF this, of "[]"] e show False by simp
    next
      fix cs
      assume "s = CHR ''['' # cs" and e: "parse_array n [] (skip_ws cs) = Inl RecursionError"
      with length_skip_ws[of cs] b have "2 * length (skip_ws cs) + 2 \<le> n" by simp
      from ih_array[OF this, of "[]"] e show False by simp
    qed
  qed
  have array: "parse_array (Suc n) acc s \<noteq> Inl RecursionError"
    if b: "2 * length s + 2 \<le> Suc n"
  proof
    assume "parse_array (Suc n) acc s = Inl RecursionError"
    from parse_array_Suc_RecursionError[OF this] show False
    proof (elim disjE exE conjE)
      assume e: "scan_once n s = Inl RecursionError"
      from b have "2 * length s + 1 \<le> n" by simp
      from ih_once[OF this] e show False by simp
    next
      fix v' r' c r''
      assume 1: "scan_once n s = Inr (v', r')" and 2: "skip_ws r' = c # r''"
        and e: "parse_array n (acc @ [v']) (skip_ws r'') = Inl RecursionError"
      from scan_once_consumes[OF 1] have "length r' < length s" .
      moreover from 2 length_skip_ws[of r'] have "length r'' < length r'" by simp
      ultimately have "2 * length (skip_ws r'') + 2 \<le> n"
        using b length_skip_ws[of r''] by simp
      from ih_array[OF this, of "acc @ [v']"] e show False by simp
    qed
  qed
  have object: "parse_object (Suc n) dacc s \<noteq> Inl RecursionError"
    if b: "2 * length s + 2 \<le> Suc n"
  proof
    assume "parse_object (Suc n) dacc s = Inl RecursionError"
    from parse_object_Suc_RecursionError[OF this] obtain key r0 r1
      where 1: "scanstring s = Inr (key, r0)"
        and 2: "strip_prefix '':'' (skip_ws r0) = Some r1"
        and 3: "scan_once n (skip_ws r1) = Inl RecursionError
               \<or> (\<exists>v' r2 c r3 r4. scan_once n (skip_ws r1) = Inr (v', r2) \<and> skip_ws r2 = c # r3
                     \<and> strip_prefix [CHR 0x22] (skip_ws r3) = Some r4
                     \<and> parse_object n (dict_set dacc key v') r4 = Inl RecursionError)"
      by blast
    from scanstring_shorter[OF 1] have l0: "length r0 < length s" .
    from strip_prefix_one[OF 2] length_skip_ws[of r0] have l1: "length r1 < length r0" by simp
    from 3 show False
    proof (elim disjE exE conjE)
      assume e: "scan_once n (skip_ws r1) = Inl RecursionError"
      from l0 l1 b length_skip_ws[of r1] have "2 * length (skip_ws r1) + 1 \<le> n" by simp
      from ih_once[OF this] e show False by simp
    next
      fix v' r2 c r3 r4
      assume 4: "scan_once n (skip_ws r1) = Inr (v', r2)" and 5: "skip_ws r2 = c # r3"
        and 6: "strip_prefix [CHR 0x22] (skip_ws r3) = Some r4"
        and e: "parse_object n (dict_set dacc key v') r4 = Inl RecursionError"
      from scan_once_consumes[OF 4] length_skip_ws[of r1]
      have l2: "length r2 < length r1" by simp
      from 5 length_skip_ws[of r2] have l3: "length r3 < length r2" by simp
      from strip_prefix_one[OF 6] length_skip_ws[of r3] have l4: "length r4 < length r3" by simp
      from l0 l1 l2 l3 l4 b have "2 * length r4 + 2 \<le> n" by simp
      from ih_object[OF this, of "dict_set dacc key v'"] e show False by simp
    qed
  qed
  from once array object show ?case by blast
qed

lemma json_loads_no_recursion_error: "json_loads s \<noteq> Inl RecursionError"
proof -
  have "2 * length (skip_ws s) + 1 \<le> 2 * length s + 2"
    using length_skip_ws[of s] by simp
  with scanner_fuel[of "skip_ws s" "2 * length s + 2"]
  have "scan_once (2 * length s + 2) (skip_ws s) \<noteq> Inl RecursionError" by simp
  then show ?thesis
    by (auto simp: json_loads_def split: sum.splits)
qed

lemma parse_array_is_list:
  "parse_array n acc s = Inr (v, r) \<Longrightarrow> \<exists>xs. v = JArray xs"
proof (induction n arbitrary: acc s)
  case 0
  then show ?case by simp
next
  case (Suc n)
  from Suc.prems obtain v' r' where 1: "scan_once n s = Inr (v', r')"
    by (auto split: sum.splits)
  show ?case
  proof (cases "skip_ws r'")
    case Nil
    with Suc.prems 1 show ?thesis by simp
  next
    case (Cons c r'')
    with Suc.prems 1 show ?thesis
      by (auto split: if_splits dest: Suc.IH)
  qed
qed

lemma json_span_bracket: "json_span s = Some t \<Longrightarrow> \<exists>u. t = CHR ''['' # u"
proof -
  assume a: "json_span s = Some t"
  then obtain b u where d: "dropWhile (\<lambda>c. c \<noteq> CHR ''['') s = b # u"
    by (cases "dropWhile (\<lambda>c. c \<noteq> CHR ''['') s") (auto simp: json_span_def)
  from hd_dropWhile[of "\<lambda>c. c \<noteq> CHR ''[''" s] d have "b = CHR ''[''" by simp
  with a d show ?thesis by (auto simp: json_span_def split: list.splits)
qed

lemma scan_once_bracket:
  "scan_once (Suc n) (CHR ''['' # u) =
     (case strip_prefix '']'' (skip_ws u) of
        Some r \<Rightarrow> Inr (JArray [], r)
      | None \<Rightarrow> parse_array n [] (skip_ws u))"
  by simp

lemma json_loads_bracket_is_list:
  assumes "json_loads (CHR ''['' # u) = Inr v"
  shows "\<exists>xs. v = JArray xs"
proof -
  have ws: "skip_ws (CHR ''['' # u) = CHR ''['' # u" by (simp add: skip_ws_def is_json_ws_def)
  have fuel: "2 * length (CHR ''['' # u) + 2 = Suc (2 * length u + 3)" by simp
  from assms obtain r where "scan_once (Suc (2 * length u + 3)) (CHR ''['' # u) = Inr (v, r)"
    unfolding json_loads_def ws fuel
    by (auto simp del: scan_once.simps split: sum.splits if_splits)
  then show ?thesis
    unfolding scan_once_bracket
    by (auto split: option.splits dest: parse_array_is_list)
qed

lemma extract_results_is_list:
  "extract_results accumulated_content = Some (Inr v) \<Longrightarrow> \<exists>results_data. v = JArray results_data"
  by (auto simp: extract_results_def split: option.splits
      dest!: json_span_bracket json_loads_bracket_is_list)

section \<open>Lemmas on the validator\<close>

lemma validate_general_url_status:
  assumes "general_status w u = Some st"
  shows "is_valid (validate_general_url w u r) = (st = 200 \<or> st = 403)"
    and "status_code (validate_general_url w u r) = Some st"
    and "content_type_detected (validate_general_url w u r) = content_type_detected r"
  using assms
  by (auto simp: general_status_def validate_general_url_def split: http_reply.splits)

lemma validate_url_general:
  assumes "general_url w u ct"
  shows "validate_url w (JString u) ct =
     validate_general_url w u \<lparr>result_url = JString u, is_valid = False, status_code = None,
        error = None, content_type_detected = None, title_verified = False\<rparr>"
  using assms
  by (auto simp: general_url_def validate_url_def Let_def split: option.splits)

lemma map_filter_mem: "x \<in> set xs \<Longrightarrow> f x = Some y \<Longrightarrow> y \<in> set (List.map_filter f xs)"
  by (induction xs) (auto simp: List.map_filter_simps split: option.splits)

section \<open>Lemmas on the normaliser\<close>

lemma ContentItem_filtered:
  "ContentItem w (JObject
      [(''title'', a), (''type'', b), (''description'', c), (''source'', d),
       (''relevance'', e), (''url'', f), (''validation'', g)])
   = Inr \<lparr>title = a, type = b, description = c, source = d, relevance = e, url = f,
          timestamp = JString (now w), validation = g\<rparr>"
  by (simp add: ContentItem_def content_item_fields_def required_fields_def dict_get_def)

lemma normalize_item_dict:
  "normalize_item w (JObject d) =
     (case clean_metadata_from_value (dict_get d ''description'' (JString [])) of
        Inl e \<Rightarrow> Inl e
      | Inr cleaned \<Rightarrow>
          Inr \<lparr>title = dict_get d ''title'' (JString []),
               type = dict_get d ''type'' (JString []),
               description = cleaned,
               source = dict_get d ''source'' (JString []),
               relevance = dict_get d ''relevance'' (JString []),
               url = dict_get d ''url'' (JString []),
               timestamp = JString (now w),
               validation = dict_get d ''validation'' JNull\<rparr>)"
  by (simp add: normalize_item_def filtered_item_def ContentItem_filtered split: sum.splits)

lemma clean_metadata_from_value_raises:
  "clean_metadata_from_value v = Inl e \<longleftrightarrow> e = TypeError \<and> truthy v \<and> (\<forall>s. v \<noteq> JString s)"
  by (cases v) (auto simp: clean_metadata_from_value_def)

section \<open>Lemmas on the search loop\<close>

lemma classify_text_chunk: "classify (text_chunk t) = (None, Some t)"
  by (simp add: classify_def text_chunk_def)



section \<open>Lemmas on the link resolver\<close>


lemma resolved_links_nonempty: "resolved_links w c \<noteq> []"
  by (simp add: resolved_links_def split: lookup_reply.splits list.splits)


lemma collect_links_step:
  assumes c: "ContentItem w item = Inr c" and h: "hashable (title c)"
  shows "collect_links w links (item # items)
     = collect_links w (dict_set links (title c) (resolved_links w c)) items"
proof (cases "url_lookup w (title c) (source c)")
  case (Lookup_raises e)
  then show ?thesis
    using c h by (simp add: process_single_item_def store_links_def resolved_links_def)
next
  case (Grounding us)
  then show ?thesis
    using c h
    by (cases us) (simp_all add: process_single_item_def store_links_def resolved_links_def)
qed


section \<open>Lemmas on the events of the streaming routes\<close>

lemma clean_mock_description:
  "clean_metadata_from_text ''The groundbreaking paper that introduced the Transformer architecture, revolutionizing natural language processing.''
   = ''The groundbreaking paper that introduced the Transformer architecture, revolutionizing natural language processing.''"
  by code_simp

lemma normalize_mock_results: "normalize w get_mock_results = Inr [mock_content_item w]"
  by (simp add: get_mock_results_def normalize_item_dict dict_get_def
      clean_metadata_from_value_def clean_mock_description mock_content_item_def)

lemma finish_stream_simps:
  "finish_stream w True = [Complete]"
  "finish_stream w False = [Results [mock_content_item w], Complete]"
  by (simp_all add: finish_stream_def normalize_mock_results)

lemma validate_content_batch_raises:
  "validate_content_batch w xs = Inl e \<Longrightarrow> e = AttributeError \<or> e = TimeoutError"
  by (auto simp: validate_content_batch_def split: if_splits)

lemma normalize_item_raises:
  "normalize_item w item = Inl e \<Longrightarrow> e = TypeError \<or> e = AttributeError"
proof (cases item)
  case (JObject d)
  assume "normalize_item w item = Inl e"
  with JObject have "clean_metadata_from_value (dict_get d ''description'' (JString [])) = Inl e"
    by (simp add: normalize_item_dict split: sum.splits)
  then show ?thesis by (simp add: clean_metadata_from_value_raises)
qed (simp_all add: normalize_item_def filtered_item_def)

lemma normalize_raises: "normalize w xs = Inl e \<Longrightarrow> e = TypeError \<or> e = AttributeError"
proof (induction xs)
  case Nil
  then show ?case by simp
next
  case (Cons x xs)
  then show ?case
    by (auto split: sum.splits dest: normalize_item_raises)
qed

lemma send_search_results_cases:
  "(\<exists>results. send_search_results w rd
       = ([Parsing_complete (length rd), Results results], None))
   \<or> (\<exists>e. send_search_results w rd = ([Parsing_complete (length rd)], Some e) \<and> \<not> caught e)"
proof (cases "validate_content_batch w rd")
  case (Inl e)
  with validate_content_batch_raises[OF Inl] show ?thesis
    by (auto simp: send_search_results_def caught_def)
next
  case (Inr validated)
  show ?thesis
  proof (cases "normalize w (if validated = [] \<and> rd \<noteq> [] then get_mock_results else validated)")
    case (Inl e)
    with normalize_raises[OF Inl] Inr show ?thesis
      by (auto simp: send_search_results_def caught_def)
  next
    case (Inr results)
    with \<open>validate_content_batch w rd = Inr validated\<close> show ?thesis
      by (simp add: send_search_results_def)
  qed
qed

lemma progress_thought_events: "list_all progress (thought_events t)"
  by (simp add: thought_events_def split: option.splits)

text \<open>The three ways a round of the search loop can end.\<close>

lemma search_step_cases:
  "(\<exists>acc'. search_step w acc ch = (thought_events (fst (classify ch)), Inl acc')
        \<and> acc' = acc @ (case snd (classify ch) of None \<Rightarrow> [] | Some c \<Rightarrow> c))
   \<or> (\<exists>evs e. search_step w acc ch = (evs, Inr (Loop_raised e)) \<and> list_all progress evs)
   \<or> (\<exists>pre results. search_step w acc ch = (pre @ [Results results], Inr (Loop_done True))
        \<and> list_all progress pre)"
proof (cases "classify ch")
  case (Pair th ct)
  show ?thesis
  proof (cases ct)
    case None
    with Pair show ?thesis by (simp add: search_step_def Let_def)
  next
    case (Some c)
    show ?thesis
    proof (cases "c = []")
      case True
      with Pair Some show ?thesis by (simp add: search_step_def Let_def)
    next
      case False
      show ?thesis
      proof (cases "extract_results (acc @ c)")
        case None
        with Pair Some False show ?thesis by (simp add: search_step_def Let_def)
      next
        case (Some x)
        note ex = Some
        show ?thesis
        proof (cases x)
          case (Inl e)
          with Pair \<open>ct = Some c\<close> False ex show ?thesis
            by (cases "caught e") (simp_all add: search_step_def Let_def progress_thought_events)
        next
          case (Inr v)
          show ?thesis
          proof (cases "\<exists>rd. v = JArray rd")
            case False
            with Pair \<open>ct = Some c\<close> \<open>c \<noteq> []\<close> ex Inr show ?thesis
              by (cases v) (simp_all add: search_step_def Let_def progress_thought_events)
          next
            case True
            then obtain rd where rd: "v = JArray rd" by blast
            from send_search_results_cases[of w rd] show ?thesis
            proof (elim disjE exE conjE)
              fix results
              assume "send_search_results w rd
                  = ([Parsing_complete (length rd), Results results], None)"
              with Pair \<open>ct = Some c\<close> \<open>c \<noteq> []\<close> ex Inr rd
              have "search_step w acc ch
                  = ((thought_events th @ [Parsing_complete (length rd)]) @ [Results results],
                     Inr (Loop_done True))"
                by (simp add: search_step_def Let_def)
              moreover have "list_all progress (thought_events th @ [Parsing_complete (length rd)])"
                by (simp add: progress_thought_events)
              ultimately show ?thesis by blast
            next
              fix e
              assume "send_search_results w rd = ([Parsing_complete (length rd)], Some e)"
                and "\<not> caught e"
              with Pair \<open>ct = Some c\<close> \<open>c \<noteq> []\<close> ex Inr rd
              have "search_step w acc ch
                  = (thought_events th @ [Parsing_complete (length rd)], Inr (Loop_raised e))"
                by (simp add: search_step_def Let_def)
              moreover have "list_all progress (thought_events th @ [Parsing_complete (length rd)])"
                by (simp add: progress_thought_events)
              ultimately show ?thesis by blast
            qed
          qed
        qed
      qed
    qed
  qed
qed


lemma all_thoughts_simps:
  "all_thoughts [] = []"
  "all_thoughts (ch # cs) = thought_events (fst (classify ch)) @ all_thoughts cs"
  by (simp_all add: all_thoughts_def)

lemma all_content_simps:
  "all_content [] = []"
  "all_content (ch # cs) = (case snd (classify ch) of None \<Rightarrow> [] | Some c \<Rightarrow> c) @ all_content cs"
  by (simp_all add: all_content_def)

lemma progress_all_thoughts: "list_all progress (all_thoughts cs)"
  by (induction cs) (simp_all add: all_thoughts_simps progress_thought_events)

lemma search_loop_cases:
  "search_loop w acc cs = (all_thoughts cs, Loop_done False)
   \<or> (\<exists>evs e. search_loop w acc cs = (evs, Loop_raised e) \<and> list_all progress evs)
   \<or> (\<exists>pre results. search_loop w acc cs = (pre @ [Results results], Loop_done True)
        \<and> list_all progress pre)"
proof (induction cs arbitrary: acc)
  case Nil
  show ?case by (simp add: all_thoughts_simps)
next
  case (Cons ch cs)
  from search_step_cases[of w acc ch] show ?case
  proof (elim disjE exE conjE)
    fix acc'
    assume step: "search_step w acc ch = (thought_events (fst (classify ch)), Inl acc')"
    from Cons.IH[of acc'] show ?thesis
    proof (elim disjE exE conjE)
      assume "search_loop w acc' cs = (all_thoughts cs, Loop_done False)"
      with step show ?thesis by (simp add: all_thoughts_simps)
    next
      fix evs e
      assume "search_loop w acc' cs = (evs, Loop_raised e)" and "list_all progress evs"
      with step have "search_loop w acc (ch # cs)
          = (thought_events (fst (classify ch)) @ evs, Loop_raised e)
        \<and> list_all progress (thought_events (fst (classify ch)) @ evs)"
        by (simp add: progress_thought_events)
      then show ?thesis by blast
    next
      fix pre results
      assume "search_loop w acc' cs = (pre @ [Results results], Loop_done True)"
        and "list_all progress pre"
      with step have "search_loop w acc (ch # cs)
          = ((thought_events (fst (classify ch)) @ pre) @ [Results results], Loop_done True)
        \<and> list_all progress (thought_events (fst (classify ch)) @ pre)"
        by (simp add: progress_thought_events)
      then show ?thesis by blast
    qed
  next
    fix evs e
    assume "search_step w acc ch = (evs, Inr (Loop_raised e))" and "list_all progress evs"
    then have "search_loop w acc (ch # cs) = (evs, Loop_raised e) \<and> list_all progress evs"
      by simp
    then show ?thesis by blast
  next
    fix pre results
    assume "search_step w acc ch = (pre @ [Results results], Inr (Loop_done True))"
      and "list_all progress pre"
    then have "search_loop w acc (ch # cs) = (pre @ [Results results], Loop_done True)
        \<and> list_all progress pre"
      by simp
    then show ?thesis by blast
  qed
qed

lemma consume_chunks_all:
  "consume_chunks acc cs = (all_thoughts cs, acc @ all_content cs)"
  by (induction cs arbitrary: acc)
     (simp_all add: all_thoughts_simps all_content_simps split: option.splits)

lemma send_recommendation_results_cases:
  "(\<exists>results. send_recommendation_results w rd
       = ([Parsing_complete (length rd), Results results], None))
   \<or> (\<exists>e. send_recommendation_results w rd = ([Parsing_complete (length rd)], Some e))"
  by (simp add: send_recommendation_results_def split: sum.splits)

lemma parse_accumulated_cases:
  "(\<exists>n results. parse_accumulated w acc = ([Parsing_complete n, Results results], True))
   \<or> (\<exists>evs. parse_accumulated w acc = (evs, False) \<and> list_all progress evs)"
proof (cases "\<exists>rd. extract_results acc = Some (Inr (JArray rd))")
  case False
  then have "parse_accumulated w acc = ([], False)"
    by (auto simp: parse_accumulated_def split: option.splits sum.splits json.splits)
  then show ?thesis by simp
next
  case True
  then obtain rd where rd: "extract_results acc = Some (Inr (JArray rd))" by blast
  from send_recommendation_results_cases[of w rd] show ?thesis
  proof (elim disjE exE)
    fix results
    assume "send_recommendation_results w rd
       = ([Parsing_complete (length rd), Results results], None)"
    with rd have "parse_accumulated w acc = ([Parsing_complete (length rd), Results results], True)"
      by (simp add: parse_accumulated_def)
    then show ?thesis by blast
  next
    fix e
    assume "send_recommendation_results w rd = ([Parsing_complete (length rd)], Some e)"
    with rd have "parse_accumulated w acc = ([Parsing_complete (length rd)], False)"
      by (simp add: parse_accumulated_def)
    then show ?thesis by simp
  qed
qed

lemma generate_stream_attempt_unfold:
  "generate_stream_attempt w api_key stream =
     Thought ''Analyzing current AI trends and developments to provide you with the most relevant recommendations...''
     # all_thoughts (get_recommendations_streaming api_key stream)
     @ (case parse_accumulated w (all_content (get_recommendations_streaming api_key stream)) of
          (evs, results_sent) \<Rightarrow> evs @ finish_stream w results_sent)"
proof -
  have "after_loop w cs (all_content cs) = parse_accumulated w (all_content cs)" for cs
    by (cases cs)
       (simp_all add: after_loop_def all_content_simps parse_accumulated_def
          extract_results_def json_span_def)
  then show ?thesis
    by (simp add: generate_stream_attempt_def consume_chunks_all split: prod.splits)
qed

lemma search_loop_exhausted:
  "search_loop w acc cs = (evs, Loop_done False) \<Longrightarrow>
   search_loop w acc (cs @ later) =
     (case search_loop w (acc @ all_content cs) later of
        (evs', left) \<Rightarrow> (all_thoughts cs @ evs', left))"
proof (induction cs arbitrary: acc evs)
  case Nil
  show ?case by (simp add: all_thoughts_simps all_content_simps split: prod.splits)
next
  case (Cons ch cs)
  from search_step_cases[of w acc ch] show ?case
  proof (elim disjE exE conjE)
    fix acc'
    assume step: "search_step w acc ch = (thought_events (fst (classify ch)), Inl acc')"
      and acc': "acc' = acc @ (case snd (classify ch) of None \<Rightarrow> [] | Some c \<Rightarrow> c)"
    obtain evs' left where rest: "search_loop w acc' cs = (evs', left)"
      by (cases "search_loop w acc' cs")
    with step Cons.prems have "left = Loop_done False" by simp
    with rest Cons.IH[of acc' evs']
    have "search_loop w acc' (cs @ later) =
       (case search_loop w (acc' @ all_content cs) later of
          (evs', left) \<Rightarrow> (all_thoughts cs @ evs', left))"
      by simp
    with step acc' show ?thesis
      by (simp add: all_thoughts_simps all_content_simps split: prod.splits)
  next
    fix evs' e
    assume "search_step w acc ch = (evs', Inr (Loop_raised e))"
    with Cons.prems show ?thesis by simp
  next
    fix pre results
    assume "search_step w acc ch = (pre @ [Results results], Inr (Loop_done True))"
    with Cons.prems show ?thesis by simp
  qed
qed

lemma search_step_parses:
  assumes "snd (classify ch) = Some c" and "c \<noteq> []"
    and "extract_results (acc @ c) = Some (Inr (JArray rd))"
  shows "search_step w acc ch =
     (case send_search_results w rd of
        (evs, None) \<Rightarrow> (thought_events (fst (classify ch)) @ evs, Inr (Loop_done True))
      | (evs, Some e) \<Rightarrow> (thought_events (fst (classify ch)) @ evs, Inr (Loop_raised e)))"
proof -
  obtain th where cl: "classify ch = (th, Some c)"
    using assms(1) by (cases "classify ch") simp
  from send_search_results_cases[of w rd] show ?thesis
  proof (elim disjE exE conjE)
    fix results
    assume "send_search_results w rd = ([Parsing_complete (length rd), Results results], None)"
    with cl assms show ?thesis by (simp add: search_step_def Let_def)
  next
    fix e
    assume "send_search_results w rd = ([Parsing_complete (length rd)], Some e)" and "\<not> caught e"
    with cl assms show ?thesis by (simp add: search_step_def Let_def)
  qed
qed

section \<open>Lemmas on the mock streaming response\<close>

lemma results_text_parses:
  "extract_results results_text = Some (Inr (JArray [JObject mock_stream_item]))"
  by code_simp

lemma results_text_nonempty: "results_text \<noteq> []"
  by (simp add: results_text_def)

lemma thinking_chunks_nonempty: "list_all (\<lambda>t. t \<noteq> []) thinking_chunks"
  by (simp add: thinking_chunks_def)

lemma classify_thinking_chunk:
  "th \<noteq> [] \<Longrightarrow> classify (MockChunk [] (Some th)) = (Some th, Some [])"
  by (simp add: classify_def MockChunk_def part_texts_def List.map_filter_simps)

lemma classify_results_chunk:
  "t \<noteq> [] \<Longrightarrow> classify (MockChunk t None) = (None, Some t)"
  by (simp add: classify_def MockChunk_def part_texts_def List.map_filter_simps)

lemma search_loop_thinking_chunks:
  "list_all (\<lambda>t. t \<noteq> []) ths \<Longrightarrow>
   search_loop w acc (map (\<lambda>t. MockChunk [] (Some t)) ths @ rest) =
     (case search_loop w acc rest of (evs, left) \<Rightarrow> (map Thought ths @ evs, left))"
proof (induction ths)
  case Nil
  show ?case by (simp split: prod.splits)
next
  case (Cons th ths)
  then have th: "th \<noteq> []" and rest: "list_all (\<lambda>t. t \<noteq> []) ths" by simp_all
  have step: "search_step w acc (MockChunk [] (Some th)) = ([Thought th], Inl acc)"
    using th by (simp add: search_step_def classify_thinking_chunk thought_events_def)
  show ?case
    using Cons.IH[OF rest] by (simp add: step split: prod.splits)
qed

lemma all_thoughts_append: "all_thoughts (xs @ ys) = all_thoughts xs @ all_thoughts ys"
  by (simp add: all_thoughts_def)

lemma all_content_append: "all_content (xs @ ys) = all_content xs @ all_content ys"
  by (simp add: all_content_def)

lemma all_thoughts_thinking_chunks:
  "list_all (\<lambda>t. t \<noteq> []) ths \<Longrightarrow>
   all_thoughts (map (\<lambda>t. MockChunk [] (Some t)) ths) = map Thought ths
   \<and> all_content (map (\<lambda>t. MockChunk [] (Some t)) ths) = []"
  by (induction ths)
     (simp_all add: all_thoughts_simps all_content_simps classify_thinking_chunk
        thought_events_def)

lemma mock_stream_item_gets:
  "dict_get mock_stream_item ''url'' (JString []) = JString []"
  "dict_get mock_stream_item ''type'' (JString []) = JString ''academic''"
  "dict_set mock_stream_item ''validation'' v = mock_stream_item @ [(''validation'', v)]"
  "dict_set mock_stream_item ''url'' v = mock_stream_item @ [(''url'', v)]"
  "map_of mock_stream_item ''title''
     = Some (JString ''Attention Is All You Need - Transformer Paper'')"
  "map_of mock_stream_item ''source'' = Some (JString ''arXiv'')"
  by (simp_all add: mock_stream_item_def dict_get_def)

lemma normalize_mock_stream_item:
  "\<exists>c. normalize_item w (JObject (mock_stream_item @ [(k, v)])) = Inr c
     \<and> title c = JString ''Attention Is All You Need - Transformer Paper''
     \<and> source c = JString ''arXiv''"
  by (simp add: normalize_item_dict mock_stream_item_def dict_get_def
      clean_metadata_from_value_def clean_mock_description)

lemma validate_mock_stream_item:
  "validate_single_item w mock_stream_item = None
   \<or> (\<exists>v. validate_single_item w mock_stream_item
          = Some (JObject (mock_stream_item @ [(''validation'', v)])))"
  by (simp add: validate_single_item_def Let_def mock_stream_item_gets)

lemma validate_mock_stream_item_empty_url:
  "urlparse w [] = Some ([], []) \<Longrightarrow> validate_single_item w mock_stream_item = None"
  by (simp add: validate_single_item_def Let_def mock_stream_item_gets validate_url_def)

lemma send_search_results_mock:
  assumes "\<not> deadline_missed w [JObject mock_stream_item]"
  shows "\<exists>c. send_search_results w [JObject mock_stream_item]
           = ([Parsing_complete 1, Results [c]], None)
     \<and> title c = JString ''Attention Is All You Need - Transformer Paper''
     \<and> source c = JString ''arXiv''
     \<and> (urlparse w [] = Some ([], []) \<longrightarrow> c = mock_content_item w)"
proof -
  have batch: "validate_content_batch w [JObject mock_stream_item]
      = Inr (case validate_single_item w mock_stream_item of None \<Rightarrow> [] | Some x \<Rightarrow> [x])"
    using assms
    by (simp add: validate_content_batch_def is_dict_def List.map_filter_simps validate_item_def
        split: option.splits)
  from validate_mock_stream_item[of w] show ?thesis
  proof (elim disjE exE)
    assume none: "validate_single_item w mock_stream_item = None"
    have "send_search_results w [JObject mock_stream_item]
           = ([Parsing_complete 1, Results [mock_content_item w]], None)"
      by (simp add: send_search_results_def batch none normalize_mock_results)
    then show ?thesis by (simp add: mock_content_item_def)
  next
    fix v
    assume some: "validate_single_item w mock_stream_item
          = Some (JObject (mock_stream_item @ [(''validation'', v)]))"
    from normalize_mock_stream_item[of w "''validation''" v] obtain c
      where c: "normalize_item w (JObject (mock_stream_item @ [(''validation'', v)])) = Inr c"
        and t: "title c = JString ''Attention Is All You Need - Transformer Paper''"
        and s: "source c = JString ''arXiv''"
      by blast
    have "send_search_results w [JObject mock_stream_item]
           = ([Parsing_complete 1, Results [c]], None)"
      by (simp add: send_search_results_def batch some c)
    moreover have "urlparse w [] \<noteq> Some ([], [])"
      using some validate_mock_stream_item_empty_url[of w] by auto
    ultimately show ?thesis using t s by blast
  qed
qed

lemma ContentItem_mock_stream_item:
  "\<exists>c. ContentItem w (JObject mock_stream_item) = Inr c
     \<and> title c = JString ''Attention Is All You Need - Transformer Paper''
     \<and> source c = JString ''arXiv''"
  by (simp add: ContentItem_def mock_stream_item_def content_item_fields_def
      required_fields_def dict_get_def)

lemma send_recommendation_results_mock:
  "\<exists>c. send_recommendation_results w [JObject mock_stream_item]
           = ([Parsing_complete 1, Results [c]], None)
     \<and> title c = JString ''Attention Is All You Need - Transformer Paper''
     \<and> source c = JString ''arXiv''"
proof -
  from ContentItem_mock_stream_item[of w] obtain c0
    where c0: "ContentItem w (JObject mock_stream_item) = Inr c0"
      and t0: "title c0 = JString ''Attention Is All You Need - Transformer Paper''"
    by blast
  have h: "hashable (title c0)" by (simp add: t0 hashable_def)
  obtain l ls where ls: "resolved_links w c0 = l # ls"
    using resolved_links_nonempty[of w c0] by (cases "resolved_links w c0") auto
  have "collect_links w [] [JObject mock_stream_item]
      = collect_links w (dict_set [] (title c0) (resolved_links w c0)) []"
    by (rule collect_links_step[OF c0 h])
  then have links: "generate_links_by_title_parallel w [JObject mock_stream_item]
      = Inr [(JString ''Attention Is All You Need - Transformer Paper'', l # ls)]"
    by (simp add: generate_links_by_title_parallel_def ThreadPoolExecutor_def t0 ls)
  have urls: "set_item_url w [(JString ''Attention Is All You Need - Transformer Paper'', l # ls)]
        (JObject mock_stream_item)
      = Inr (JObject (mock_stream_item @ [(''url'', l)]))"
    by (simp add: set_item_url_def mock_stream_item_gets hashable_def)
  from normalize_mock_stream_item[of w "''url''" l] obtain c
    where c: "normalize_item w (JObject (mock_stream_item @ [(''url'', l)])) = Inr c"
      and t: "title c = JString ''Attention Is All You Need - Transformer Paper''"
      and s: "source c = JString ''arXiv''"
    by blast
  have "send_recommendation_results w [JObject mock_stream_item]
           = ([Parsing_complete 1, Results [c]], None)"
    by (simp add: send_recommendation_results_def links urls c)
  with t s show ?thesis by blast
qed

section \<open>The claims\<close>

text \<open>
  Claim C5, as amended. Stripping the metadata twice gives the same text as stripping
  it once exactly when the once-stripped text contains no citation marker of either
  kind; and the text
  \<open>Great paper [Search 1] on AI [General search 2, Meta search 1]\<close> is stripped to
  \<open>Great paper on AI\<close>.
\<close>

theorem clean_metadata_idempotent_iff_no_marker_left:
  "(clean_metadata_from_text (clean_metadata_from_text t) = clean_metadata_from_text t
      \<longleftrightarrow> \<not> has_match General_marker (clean_metadata_from_text t)
           \<and> \<not> has_match Simple_marker (clean_metadata_from_text t))
   \<and> clean_metadata_from_text
        ''Great paper [Search 1] on AI [General search 2, Meta search 1]''
      = ''Great paper on AI''"
proof -
  have ex: "clean_metadata_from_text
        ''Great paper [Search 1] on AI [General search 2, Meta search 1]''
      = ''Great paper on AI''"
    by code_simp
  have "clean_metadata_from_text (clean_metadata_from_text t) \<noteq> clean_metadata_from_text t"
    if "has_match General_marker (clean_metadata_from_text t)
        \<or> has_match Simple_marker (clean_metadata_from_text t)"
    using clean_shrinks_when_marked[OF that] by auto
  with clean_twice_when_free[of t] ex show ?thesis by blast
qed

text \<open>
  An instance of the equivalence where no marker is left: the stripped text is a fixed
  point.
\<close>

theorem clean_metadata_idempotent_witness:
  "clean_metadata_from_text (clean_metadata_from_text ''Survey [Result 3] of agents'')
     = clean_metadata_from_text ''Survey [Result 3] of agents''
   \<and> clean_metadata_from_text ''Survey [Result 3] of agents'' = ''Survey of agents''"
proof -
  have 1: "clean_metadata_from_text ''Survey [Result 3] of agents'' = ''Survey of agents''"
    by code_simp
  have "\<not> has_match General_marker ''Survey of agents''
      \<and> \<not> has_match Simple_marker ''Survey of agents''"
    by code_simp
  with clean_metadata_idempotent_iff_no_marker_left[of "''Survey [Result 3] of agents''"] 1
  show ?thesis by simp
qed

text \<open>
  Stripping is not idempotent on every text: deleting the inner marker of
  \<open>[Sea[Search 1]rch 1]\<close> joins the two halves of an outer one, which only a second
  pass deletes.
\<close>

theorem clean_metadata_not_idempotent:
  "clean_metadata_from_text ''[Sea[Search 1]rch 1]'' = ''[Search 1]''
   \<and> clean_metadata_from_text (clean_metadata_from_text ''[Sea[Search 1]rch 1]'') = []"
  by code_simp

text \<open>
  Claim C8. Clearing the chat session with a given id removes that session from the
  registry: the history fetched for that id afterwards is the empty list, and every
  other id keeps its session and its history.
\<close>

theorem clear_chat_session_removes_only_that_session:
  "clear_chat_session active_chats chat_id chat_id = None
   \<and> get_chat_history (clear_chat_session active_chats chat_id) chat_id = []
   \<and> (\<forall>other. other \<noteq> chat_id \<longrightarrow>
          clear_chat_session active_chats chat_id other = active_chats other
          \<and> get_chat_history (clear_chat_session active_chats chat_id) other
              = get_chat_history active_chats other)"
  by (cases "active_chats chat_id") (simp_all add: clear_chat_session_def get_chat_history_def)

text \<open>
  In a registry with two sessions, clearing the first one empties its history and
  leaves the history of the second one as it was.
\<close>

theorem clear_chat_session_witness:
  "get_chat_history example_registry ''article_a'' = [(''user'', ''What happened?'')]
   \<and> get_chat_history (clear_chat_session example_registry ''article_a'') ''article_a'' = []
   \<and> get_chat_history (clear_chat_session example_registry ''article_a'') ''article_b''
       = [(''assistant'', ''It shipped.'')]"
proof -
  have a: "get_chat_history example_registry ''article_a'' = [(''user'', ''What happened?'')]"
    by code_simp
  have b: "get_chat_history example_registry ''article_b'' = [(''assistant'', ''It shipped.'')]"
    by code_simp
  have ne: "''article_b'' \<noteq> ''article_a''" by simp
  from clear_chat_session_removes_only_that_session[of example_registry "''article_a''"] ne a b
  show ?thesis by metis
qed

text \<open>
  Claim C9. With an empty list of items \<^verbatim>\<open>generate_links_by_title_parallel\<close> raises
  an exception (the pool is asked for \<open>min 0 10 = 0\<close> workers) and returns no
  mapping; for every non-empty list the pool is created without exception with
  \<open>min (length content_items) 10\<close> workers, and the function goes on to collect the
  links.
\<close>

theorem generate_links_empty_list_raises:
  "generate_links_by_title_parallel w [] = Inl ValueError
   \<and> (content_items \<noteq> [] \<longrightarrow>
         ThreadPoolExecutor (min (length content_items) 10)
           = Inr (min (length content_items) 10)
         \<and> generate_links_by_title_parallel w content_items
             = collect_links w [] content_items)"
  by (cases content_items)
     (simp_all add: generate_links_by_title_parallel_def ThreadPoolExecutor_def)

text \<open>
  For the one-item list of mock results the pool has one worker and the links are
  collected.
\<close>

theorem generate_links_pool_witness:
  "ThreadPoolExecutor (min (length get_mock_results) 10) = Inr 1
   \<and> generate_links_by_title_parallel offline_world get_mock_results
       = Inr [(JString ''Attention Is All You Need - Transformer Paper'',
               [JString ''https://google.com/search?q=Attention Is All You Need - Transformer Paper arXiv''])]"
proof -
  have ne: "get_mock_results \<noteq> []" by (simp add: get_mock_results_def)
  have len: "min (length get_mock_results) 10 = 1" by (simp add: get_mock_results_def)
  have run: "collect_links offline_world [] get_mock_results
       = Inr [(JString ''Attention Is All You Need - Transformer Paper'',
               [JString ''https://google.com/search?q=Attention Is All You Need - Transformer Paper arXiv''])]"
    by code_simp
  from generate_links_empty_list_raises[of offline_world get_mock_results] ne len run
  show ?thesis by simp
qed

text \<open>
  Claim C10. For a general URL (one that is neither a YouTube video nor a podcast)
  whose HEAD request, or else its fallback GET request, completes with status \<open>st\<close>,
  \<^verbatim>\<open>_validate_general_url\<close> and so \<^verbatim>\<open>validate_url\<close> mark it valid exactly when
  \<open>st\<close> is 200 or 403; and \<^verbatim>\<open>validate_content_batch\<close> retains an item whose URL
  answers 403, with its validation record.
\<close>

theorem validate_general_url_accepts_200_and_403:
  assumes url: "dict_get item ''url'' (JString []) = JString u"
    and general: "general_url w u (dict_get item ''type'' (JString []))"
    and completes: "general_status w u = Some st"
  shows "is_valid (validate_general_url w u r) = (st = 200 \<or> st = 403)
    \<and> is_valid (validate_url w (JString u) (dict_get item ''type'' (JString [])))
           = (st = 200 \<or> st = 403)
    \<and> (st = 403 \<and> JObject item \<in> set content_items
         \<and> list_all is_dict content_items \<and> \<not> deadline_missed w content_items \<longrightarrow>
         (\<exists>valid_items. validate_content_batch w content_items = Inr valid_items
           \<and> JObject (dict_set item ''validation''
                (JObject [(''validated_at'', JString (now w)), (''status_code'', JInt 403),
                          (''content_type_verified'', JNull)])) \<in> set valid_items))"
proof (intro conjI impI)
  show "is_valid (validate_general_url w u r) = (st = 200 \<or> st = 403)"
    by (rule validate_general_url_status(1)[OF completes])
  show "is_valid (validate_url w (JString u) (dict_get item ''type'' (JString [])))
           = (st = 200 \<or> st = 403)"
    by (simp add: validate_url_general[OF general] validate_general_url_status(1)[OF completes])
  assume a: "st = 403 \<and> JObject item \<in> set content_items
         \<and> list_all is_dict content_items \<and> \<not> deadline_missed w content_items"
  then have st: "st = 403" and mem: "JObject item \<in> set content_items"
    and dicts: "list_all is_dict content_items" and dl: "\<not> deadline_missed w content_items"
    by simp_all
  let ?annotated = "JObject (dict_set item ''validation''
                (JObject [(''validated_at'', JString (now w)), (''status_code'', JInt 403),
                          (''content_type_verified'', JNull)]))"
  have single: "validate_single_item w item = Some ?annotated"
    using st by (simp add: validate_single_item_def url validate_url_general[OF general]
        validate_general_url_status[OF completes])
  have "validate_item w (JObject item) = Some ?annotated"
    by (simp add: validate_item_def single)
  from map_filter_mem[where f = "validate_item w", OF mem this]
  have "?annotated \<in> set (List.map_filter (validate_item w) content_items)" .
  moreover have "validate_content_batch w content_items
      = Inr (List.map_filter (validate_item w) content_items)"
    using dicts dl by (simp add: validate_content_batch_def list_ex_iff list_all_iff)
  ultimately show "\<exists>valid_items. validate_content_batch w content_items = Inr valid_items
           \<and> ?annotated \<in> set valid_items"
    by blast
qed

text \<open>
  In \<open>online_world\<close>, where every HEAD request is answered with 403, an article is
  valid and the batch keeps it.
\<close>

theorem validate_general_url_witness:
  "is_valid (validate_url online_world (JString ''https://example.org/members'') (JString ''article''))
   \<and> validate_content_batch online_world [JObject forbidden_item]
       = Inr [JObject (forbidden_item @
                [(''validation'',
                  JObject [(''validated_at'', JString ''2025-01-01T00:00:00''),
                           (''status_code'', JInt 403), (''content_type_verified'', JNull)])])]"
proof -
  have url: "dict_get forbidden_item ''url'' (JString []) = JString ''https://example.org/members''"
    by (simp add: forbidden_item_def dict_get_def)
  have ty: "dict_get forbidden_item ''type'' (JString []) = JString ''article''"
    by (simp add: forbidden_item_def dict_get_def)
  have general: "general_url online_world ''https://example.org/members''
      (dict_get forbidden_item ''type'' (JString []))"
    unfolding ty by code_simp
  have completes: "general_status online_world ''https://example.org/members'' = Some 403"
    by code_simp
  have batch: "validate_content_batch online_world [JObject forbidden_item]
       = Inr [JObject (forbidden_item @
                [(''validation'',
                  JObject [(''validated_at'', JString ''2025-01-01T00:00:00''),
                           (''status_code'', JInt 403), (''content_type_verified'', JNull)])])]"
    by code_simp
  from validate_general_url_accepts_200_and_403[OF url general completes] ty batch
  show ?thesis by simp
qed








text \<open>
  Claim C1, as amended. Whatever chunks the model sends: a request in recommendation
  mode yields exactly one \<open>results\<close> event (the parsed results or the mock
  fallback), at once followed by the terminal event \<open>complete\<close>, which is the last
  event. A request in search mode yields either the same, or no \<open>results\<close> event at
  all and the terminal event \<open>error\<close> as its last event. In both modes every event
  before these is a thought or a \<open>parsing_complete\<close> event: there is exactly one
  terminal event, nothing follows it, and no second \<open>results\<close> event follows the
  first.
\<close>

theorem stream_ends_with_one_terminal_event:
  "(\<exists>pre results. generate_stream_attempt w api_key stream = pre @ [Results results, Complete]
       \<and> list_all progress pre)
   \<and> ((\<exists>pre results. generate_stream w query api_key stream = pre @ [Results results, Complete]
          \<and> list_all progress pre)
       \<or> (\<exists>pre e. generate_stream w query api_key stream = pre @ [Error e]
          \<and> list_all progress pre))"
proof
  let ?cs = "get_recommendations_streaming api_key stream"
  let ?init = "Thought ''Analyzing current AI trends and developments to provide you with the most relevant recommendations...''"
  from parse_accumulated_cases[of w "all_content ?cs"]
  show "\<exists>pre results. generate_stream_attempt w api_key stream = pre @ [Results results, Complete]
       \<and> list_all progress pre"
  proof (elim disjE exE conjE)
    fix n results
    assume "parse_accumulated w (all_content ?cs) = ([Parsing_complete n, Results results], True)"
    then have "generate_stream_attempt w api_key stream
        = (?init # all_thoughts ?cs @ [Parsing_complete n]) @ [Results results, Complete]
      \<and> list_all progress (?init # all_thoughts ?cs @ [Parsing_complete n])"
      by (simp add: generate_stream_attempt_unfold finish_stream_simps progress_all_thoughts)
    then show ?thesis by blast
  next
    fix evs
    assume "parse_accumulated w (all_content ?cs) = (evs, False)" and "list_all progress evs"
    then have "generate_stream_attempt w api_key stream
        = (?init # all_thoughts ?cs @ evs) @ [Results [mock_content_item w], Complete]
      \<and> list_all progress (?init # all_thoughts ?cs @ evs)"
      by (simp add: generate_stream_attempt_unfold finish_stream_simps progress_all_thoughts)
    then show ?thesis by blast
  qed
next
  let ?cs = "search_content_streaming api_key stream"
  let ?init = "Thought (''Analyzing your query \"'' @ query
              @ ''\" to find the most relevant and current content...'')"
  from search_loop_cases[of w "[]" ?cs]
  show "(\<exists>pre results. generate_stream w query api_key stream = pre @ [Results results, Complete]
          \<and> list_all progress pre)
       \<or> (\<exists>pre e. generate_stream w query api_key stream = pre @ [Error e]
          \<and> list_all progress pre)"
  proof (elim disjE exE conjE)
    assume "search_loop w [] ?cs = (all_thoughts ?cs, Loop_done False)"
    then have "generate_stream w query api_key stream
        = (?init # all_thoughts ?cs) @ [Results [mock_content_item w], Complete]
      \<and> list_all progress (?init # all_thoughts ?cs)"
      by (simp add: generate_stream_def finish_stream_simps progress_all_thoughts)
    then show ?thesis by blast
  next
    fix evs e
    assume "search_loop w [] ?cs = (evs, Loop_raised e)" and "list_all progress evs"
    then have "generate_stream w query api_key stream = (?init # evs) @ [Error e]
      \<and> list_all progress (?init # evs)"
      by (simp add: generate_stream_def)
    then show ?thesis by blast
  next
    fix pre results
    assume "search_loop w [] ?cs = (pre @ [Results results], Loop_done True)"
      and "list_all progress pre"
    then have "generate_stream w query api_key stream = (?init # pre) @ [Results results, Complete]
      \<and> list_all progress (?init # pre)"
      by (simp add: generate_stream_def finish_stream_simps)
    then show ?thesis by blast
  qed
qed

text \<open>
  A stream that ends without a chunk: both routes send the mock results and complete.
\<close>

theorem stream_ends_witness:
  "generate_stream offline_world ''agents'' ''secret-key'' \<lparr>chunks = [], fails = False\<rparr>
     = [Thought ''Analyzing your query \"agents\" to find the most relevant and current content...'',
        Results [mock_content_item offline_world], Complete]
   \<and> generate_stream_attempt offline_world ''secret-key'' \<lparr>chunks = [], fails = False\<rparr>
     = [Thought ''Analyzing current AI trends and developments to provide you with the most relevant recommendations...'',
        Results [mock_content_item offline_world], Complete]"
proof -
  have search: "generate_stream offline_world ''agents'' ''secret-key'' \<lparr>chunks = [], fails = False\<rparr>
     = [Thought ''Analyzing your query \"agents\" to find the most relevant and current content...'',
        Results [mock_content_item offline_world], Complete]"
    by code_simp
  have recommend: "generate_stream_attempt offline_world ''secret-key'' \<lparr>chunks = [], fails = False\<rparr>
     = [Thought ''Analyzing current AI trends and developments to provide you with the most relevant recommendations...'',
        Results [mock_content_item offline_world], Complete]"
    by code_simp
  from stream_ends_with_one_terminal_event
         [of offline_world "''secret-key''" "\<lparr>chunks = [], fails = False\<rparr>" "''agents''"]
  have "\<exists>pre results.
          generate_stream_attempt offline_world ''secret-key'' \<lparr>chunks = [], fails = False\<rparr>
            = pre @ [Results results, Complete]"
    by blast
  with search recommend show ?thesis by simp
qed

text \<open>
  A search request without any \<open>results\<close> event: the answer text cites \<open>[1]\<close>, the
  pattern finds that span, \<^verbatim>\<open>json.loads\<close> makes the list \<open>[1]\<close> of it, and
  validating the number raises \<open>AttributeError\<close>, which only the outer handler
  catches.
\<close>

theorem search_stream_without_results_event:
  "generate_stream offline_world ''agents'' ''secret-key''
     \<lparr>chunks = [text_chunk ''As shown in [1], agents plan.''], fails = False\<rparr>
   = [Thought ''Analyzing your query \"agents\" to find the most relevant and current content...'',
      Parsing_complete 1, Error AttributeError]"
  by code_simp

text \<open>
  Claim C2, as amended. In search mode the extraction is attempted after each chunk
  that carries answer text: when the rounds for the chunks \<open>cs\<close> have all gone on
  and the text accumulated with the next chunk parses to a list, the route yields the
  thoughts so far, then the events of sending that list, and ends; the chunks
  \<open>later\<close> in the stream, and whether the stream fails after them, have no effect.
  In recommendation mode every chunk is consumed first (all thoughts are yielded) and
  the extraction is attempted once, on the answer text of the whole stream.
\<close>

theorem search_stops_at_first_parse_recommendation_parses_at_end:
  "(api_key \<noteq> [] \<and> search_loop w [] cs = (evs0, Loop_done False)
      \<and> snd (classify ch) = Some c \<and> c \<noteq> []
      \<and> extract_results (all_content cs @ c) = Some (Inr (JArray results_data))
    \<longrightarrow> generate_stream w query api_key \<lparr>chunks = cs @ ch # later, fails = f\<rparr>
        = Thought (''Analyzing your query \"'' @ query
                   @ ''\" to find the most relevant and current content...'')
          # all_thoughts cs @ thought_events (fst (classify ch))
          @ (case send_search_results w results_data of
               (evs, None) \<Rightarrow> evs @ [Complete]
             | (evs, Some e) \<Rightarrow> evs @ [Error e]))
   \<and> (api_key \<noteq> []
    \<longrightarrow> generate_stream_attempt w api_key \<lparr>chunks = cs, fails = False\<rparr>
        = Thought ''Analyzing current AI trends and developments to provide you with the most relevant recommendations...''
          # all_thoughts cs
          @ (case parse_accumulated w (all_content cs) of
               (evs, results_sent) \<Rightarrow> evs @ finish_stream w results_sent))"
proof (intro conjI impI)
  assume a: "api_key \<noteq> [] \<and> search_loop w [] cs = (evs0, Loop_done False)
      \<and> snd (classify ch) = Some c \<and> c \<noteq> []
      \<and> extract_results (all_content cs @ c) = Some (Inr (JArray results_data))"
  let ?later = "later @ (if f then create_mock_streaming_response else [])"
  from a have chunks: "search_content_streaming api_key \<lparr>chunks = cs @ ch # later, fails = f\<rparr>
      = cs @ (ch # ?later)"
    by (simp add: search_content_streaming_def call_gemini_api_for_results_streaming_def)
  from a have ex: "search_loop w [] cs = (evs0, Loop_done False)" by simp
  from a have step: "search_step w (all_content cs) ch =
     (case send_search_results w results_data of
        (evs, None) \<Rightarrow> (thought_events (fst (classify ch)) @ evs, Inr (Loop_done True))
      | (evs, Some e) \<Rightarrow> (thought_events (fst (classify ch)) @ evs, Inr (Loop_raised e)))"
    using search_step_parses[of ch c "all_content cs" results_data w] by simp
  have loop: "search_loop w [] (cs @ (ch # ?later)) =
     (case search_loop w (all_content cs) (ch # ?later) of
        (evs', left) \<Rightarrow> (all_thoughts cs @ evs', left))"
    using search_loop_exhausted[OF ex, of "ch # ?later"] by simp
  show "generate_stream w query api_key \<lparr>chunks = cs @ ch # later, fails = f\<rparr>
        = Thought (''Analyzing your query \"'' @ query
                   @ ''\" to find the most relevant and current content...'')
          # all_thoughts cs @ thought_events (fst (classify ch))
          @ (case send_search_results w results_data of
               (evs, None) \<Rightarrow> evs @ [Complete]
             | (evs, Some e) \<Rightarrow> evs @ [Error e])"
    unfolding generate_stream_def chunks loop
    by (simp add: step finish_stream_simps split: prod.splits option.splits)
next
  assume "api_key \<noteq> []"
  then have "get_recommendations_streaming api_key \<lparr>chunks = cs, fails = False\<rparr> = cs"
    by (simp add: get_recommendations_streaming_def call_gemini_api_for_results_streaming_def)
  then show "generate_stream_attempt w api_key \<lparr>chunks = cs, fails = False\<rparr>
        = Thought ''Analyzing current AI trends and developments to provide you with the most relevant recommendations...''
          # all_thoughts cs
          @ (case parse_accumulated w (all_content cs) of
               (evs, results_sent) \<Rightarrow> evs @ finish_stream w results_sent)"
    by (simp add: generate_stream_attempt_unfold)
qed

text \<open>
  A search stream whose second chunk completes the list: the item is validated and
  sent, and neither the third chunk nor the failure of the stream after it shows.
\<close>

theorem search_stops_witness:
  "generate_stream online_world ''scaling'' ''secret-key''
     \<lparr>chunks = [text_chunk ''Here: '', text_chunk paper_text, text_chunk '']''], fails = True\<rparr>
   = [Thought ''Analyzing your query \"scaling\" to find the most relevant and current content...'',
      Parsing_complete 1,
      Results
        [\<lparr>title = JString ''Scaling Laws'', type = JString ''article'',
          description = JString ''On scaling.'', source = JString ''Wired'',
          relevance = JString ''Core'', url = JString ''https://example.org/paper'',
          timestamp = JString ''2025-01-01T00:00:00'',
          validation = JObject
            [(''validated_at'', JString ''2025-01-01T00:00:00''), (''status_code'', JInt 403),
             (''content_type_verified'', JNull)]\<rparr>],
      Complete]"
proof -
  have key: "''secret-key'' \<noteq> []" by simp
  have before: "search_loop online_world [] [text_chunk ''Here: ''] = ([], Loop_done False)"
    by code_simp
  have cl: "snd (classify (text_chunk paper_text)) = Some paper_text"
    by (simp add: classify_text_chunk)
  have ne: "paper_text \<noteq> []" by (simp add: paper_text_def)
  have parse: "extract_results (all_content [text_chunk ''Here: ''] @ paper_text)
      = Some (Inr (JArray [paper_item]))"
    by code_simp
  have th: "all_thoughts [text_chunk ''Here: ''] = []"
    by (simp add: all_thoughts_simps classify_text_chunk thought_events_def)
  have send: "send_search_results online_world [paper_item]
      = ([Parsing_complete 1,
          Results
            [\<lparr>title = JString ''Scaling Laws'', type = JString ''article'',
              description = JString ''On scaling.'', source = JString ''Wired'',
              relevance = JString ''Core'', url = JString ''https://example.org/paper'',
              timestamp = JString ''2025-01-01T00:00:00'',
              validation = JObject
                [(''validated_at'', JString ''2025-01-01T00:00:00''), (''status_code'', JInt 403),
                 (''content_type_verified'', JNull)]\<rparr>]], None)"
    by code_simp
  from search_stops_at_first_parse_recommendation_parses_at_end
         [of "''secret-key''" online_world "[text_chunk ''Here: '']" "[]" "text_chunk paper_text"
             paper_text "[paper_item]" "''scaling''" "[text_chunk '']'']" True]
       key before cl ne parse
  show ?thesis by (simp add: th send classify_text_chunk thought_events_def)
qed

text \<open>
  In recommendation mode the stream is not left at the first text that parses: the
  answer text of the first chunk alone is a list and is sent, but when a second chunk
  follows, it is consumed as well, the whole text no longer parses, and the mock
  results are sent in place of the model's.
\<close>

theorem recommendation_consumes_whole_stream:
  "generate_stream_attempt online_world ''secret-key''
     \<lparr>chunks = [text_chunk paper_text], fails = False\<rparr>
   = [Thought ''Analyzing current AI trends and developments to provide you with the most relevant recommendations...'',
      Parsing_complete 1,
      Results
        [\<lparr>title = JString ''Scaling Laws'', type = JString ''article'',
          description = JString ''On scaling.'', source = JString ''Wired'',
          relevance = JString ''Core'', url = JString ''https://example.org/page'',
          timestamp = JString ''2025-01-01T00:00:00'', validation = JNull\<rparr>],
      Complete]
   \<and> generate_stream_attempt online_world ''secret-key''
       \<lparr>chunks = [text_chunk paper_text, text_chunk '']''], fails = False\<rparr>
     = [Thought ''Analyzing current AI trends and developments to provide you with the most relevant recommendations...'',
        Results [mock_content_item online_world], Complete]"
  by code_simp

text \<open>
  Claim C4. When the model stream raises before it yields a chunk, the request is not
  ended by that error. The search route (provided the validation of the one item meets
  its deadline) and the recommendation route both yield the opening thought, the four
  thoughts of the mock response, a \<open>parsing_complete\<close> event, exactly one
  \<open>results\<close> event with one item whose title is
  \<open>Attention Is All You Need - Transformer Paper\<close> and whose source is \<open>arXiv\<close>,
  and then \<open>complete\<close>. In the search route, since \<^verbatim>\<open>urlparse\<close> finds no scheme
  in the item's empty URL, that item is the fixed mock item.
\<close>

theorem mock_results_when_model_stream_raises:
  "(\<not> deadline_missed w [JObject mock_stream_item] \<longrightarrow>
        (\<exists>c. generate_stream w query api_key \<lparr>chunks = [], fails = True\<rparr>
               = Thought (''Analyzing your query \"'' @ query
                          @ ''\" to find the most relevant and current content...'')
                 # map Thought thinking_chunks @ [Parsing_complete 1, Results [c], Complete]
            \<and> title c = JString ''Attention Is All You Need - Transformer Paper''
            \<and> source c = JString ''arXiv''
            \<and> (urlparse w [] = Some ([], []) \<longrightarrow> c = mock_content_item w)))
     \<and> (\<exists>c. generate_stream_attempt w api_key \<lparr>chunks = [], fails = True\<rparr>
               = Thought ''Analyzing current AI trends and developments to provide you with the most relevant recommendations...''
                 # map Thought thinking_chunks @ [Parsing_complete 1, Results [c], Complete]
            \<and> title c = JString ''Attention Is All You Need - Transformer Paper''
            \<and> source c = JString ''arXiv'')"
proof (intro conjI impI)
  assume dl: "\<not> deadline_missed w [JObject mock_stream_item]"
  have chunks: "search_content_streaming api_key \<lparr>chunks = [], fails = True\<rparr>
      = map (\<lambda>t. MockChunk [] (Some t)) thinking_chunks @ [MockChunk results_text None]"
    by (simp add: search_content_streaming_def call_gemini_api_for_results_streaming_def
        create_mock_streaming_response_def)
  have cl: "snd (classify (MockChunk results_text None)) = Some results_text"
    "fst (classify (MockChunk results_text None)) = None"
    by (simp_all add: classify_results_chunk[OF results_text_nonempty])
  have step: "search_step w [] (MockChunk results_text None) =
     (case send_search_results w [JObject mock_stream_item] of
        (evs, None) \<Rightarrow> (evs, Inr (Loop_done True))
      | (evs, Some e) \<Rightarrow> (evs, Inr (Loop_raised e)))"
    using search_step_parses[of "MockChunk results_text None" results_text "[]"
        "[JObject mock_stream_item]" w]
    by (simp add: cl results_text_nonempty results_text_parses thought_events_def)
  from send_search_results_mock[OF dl] obtain c
    where send: "send_search_results w [JObject mock_stream_item]
           = ([Parsing_complete 1, Results [c]], None)"
      and props: "title c = JString ''Attention Is All You Need - Transformer Paper''"
        "source c = JString ''arXiv''"
        "urlparse w [] = Some ([], []) \<longrightarrow> c = mock_content_item w"
    by blast
  have "generate_stream w query api_key \<lparr>chunks = [], fails = True\<rparr>
               = Thought (''Analyzing your query \"'' @ query
                          @ ''\" to find the most relevant and current content...'')
                 # map Thought thinking_chunks @ [Parsing_complete 1, Results [c], Complete]"
    unfolding generate_stream_def chunks
      search_loop_thinking_chunks[OF thinking_chunks_nonempty]
    by (simp add: step send finish_stream_simps)
  with props show "\<exists>c. generate_stream w query api_key \<lparr>chunks = [], fails = True\<rparr>
               = Thought (''Analyzing your query \"'' @ query
                          @ ''\" to find the most relevant and current content...'')
                 # map Thought thinking_chunks @ [Parsing_complete 1, Results [c], Complete]
            \<and> title c = JString ''Attention Is All You Need - Transformer Paper''
            \<and> source c = JString ''arXiv''
            \<and> (urlparse w [] = Some ([], []) \<longrightarrow> c = mock_content_item w)"
    by blast
next
  have chunks: "get_recommendations_streaming api_key \<lparr>chunks = [], fails = True\<rparr>
      = map (\<lambda>t. MockChunk [] (Some t)) thinking_chunks @ [MockChunk results_text None]"
    by (simp add: get_recommendations_streaming_def call_gemini_api_for_results_streaming_def
        create_mock_streaming_response_def)
  have th: "all_thoughts (map (\<lambda>t. MockChunk [] (Some t)) thinking_chunks
               @ [MockChunk results_text None]) = map Thought thinking_chunks"
    using all_thoughts_thinking_chunks[OF thinking_chunks_nonempty]
    by (simp add: all_thoughts_append all_thoughts_simps
        classify_results_chunk[OF results_text_nonempty] thought_events_def)
  have ct: "all_content (map (\<lambda>t. MockChunk [] (Some t)) thinking_chunks
               @ [MockChunk results_text None]) = results_text"
    using all_thoughts_thinking_chunks[OF thinking_chunks_nonempty]
    by (simp add: all_content_append all_content_simps
        classify_results_chunk[OF results_text_nonempty])
  from send_recommendation_results_mock[of w] obtain c
    where send: "send_recommendation_results w [JObject mock_stream_item]
           = ([Parsing_complete 1, Results [c]], None)"
      and props: "title c = JString ''Attention Is All You Need - Transformer Paper''"
        "source c = JString ''arXiv''"
    by blast
  have "generate_stream_attempt w api_key \<lparr>chunks = [], fails = True\<rparr>
               = Thought ''Analyzing current AI trends and developments to provide you with the most relevant recommendations...''
                 # map Thought thinking_chunks @ [Parsing_complete 1, Results [c], Complete]"
    unfolding generate_stream_attempt_unfold chunks th ct
    by (simp add: parse_accumulated_def results_text_parses send finish_stream_simps)
  with props show "\<exists>c. generate_stream_attempt w api_key \<lparr>chunks = [], fails = True\<rparr>
               = Thought ''Analyzing current AI trends and developments to provide you with the most relevant recommendations...''
                 # map Thought thinking_chunks @ [Parsing_complete 1, Results [c], Complete]
            \<and> title c = JString ''Attention Is All You Need - Transformer Paper''
            \<and> source c = JString ''arXiv''"
    by blast
qed

text \<open>
  In \<open>offline_world\<close> the search route sends the fixed mock item, and the
  recommendation route sends it with the fallback link as its URL.
\<close>

theorem mock_results_witness:
  "generate_stream offline_world ''agents'' ''secret-key'' \<lparr>chunks = [], fails = True\<rparr>
     = Thought ''Analyzing your query \"agents\" to find the most relevant and current content...''
       # map Thought thinking_chunks
       @ [Parsing_complete 1, Results [mock_content_item offline_world], Complete]
   \<and> generate_stream_attempt offline_world ''secret-key'' \<lparr>chunks = [], fails = True\<rparr>
     = Thought ''Analyzing current AI trends and developments to provide you with the most relevant recommendations...''
       # map Thought thinking_chunks
       @ [Parsing_complete 1,
          Results [(mock_content_item offline_world)
                     \<lparr>url := JString ''https://google.com/search?q=Attention Is All You Need - Transformer Paper arXiv''\<rparr>],
          Complete]"
proof -
  have dl: "\<not> deadline_missed offline_world [JObject mock_stream_item]"
    by (simp add: offline_world_def)
  have up: "urlparse offline_world [] = Some ([], [])"
    by (simp add: offline_world_def)
  from mock_results_when_model_stream_raises[where w = offline_world and query = "''agents''"
         and api_key = "''secret-key''"]
       dl up
  have search: "generate_stream offline_world ''agents'' ''secret-key'' \<lparr>chunks = [], fails = True\<rparr>
     = Thought ''Analyzing your query \"agents\" to find the most relevant and current content...''
       # map Thought thinking_chunks
       @ [Parsing_complete 1, Results [mock_content_item offline_world], Complete]"
    by auto
  have recommend: "generate_stream_attempt offline_world ''secret-key'' \<lparr>chunks = [], fails = True\<rparr>
     = Thought ''Analyzing current AI trends and developments to provide you with the most relevant recommendations...''
       # map Thought thinking_chunks
       @ [Parsing_complete 1,
          Results [(mock_content_item offline_world)
                     \<lparr>url := JString ''https://google.com/search?q=Attention Is All You Need - Transformer Paper arXiv''\<rparr>],
          Complete]"
    by code_simp
  from search recommend show ?thesis by simp
qed

end
